theory Spec2Isabelle
  imports Complex_Main
begin

section \<open>Data model\<close>

text \<open>
  Coordinates are JavaScript numbers; they are modelled as exact reals.  A \<open>Vector3\<close> value
  is the content of a vector object; the objects themselves live in the store \<open>vectors\<close> of
  the mesh and are named by their address, so that two fields holding the same object can be
  told apart from two fields holding equal coordinates.
\<close>

datatype Vector3 = Vector3 (vx: real) (vy: real) (vz: real)

datatype Color3 = Color3 (cr: real) (cg: real) (cb: real)

datatype Color4 = Color4 real real real real

datatype error = InvalidSampleCount | TypeError

text \<open>
  \<open>IPath3DMeshCurve\<close>: \<open>v0 .. v3\<close> are references to vector objects (addresses), \<open>curve\<close> is
  the cached \<open>Curve3\<close> (its point list; \<open>None\<close> is the initial \<open>null\<close>), \<open>nbPoints\<close> the
  sample count.
\<close>

record IPath3DMeshCurve =
  curve :: "Vector3 list option"
  nbPoints :: int
  v0 :: nat
  v1 :: nat
  v2 :: nat
  v3 :: nat

text \<open>
  A helper mesh (sphere or instance): its position, whether \<open>dispose()\<close> was called on it,
  and the index captured by the callback closure that \<open>_getHelper\<close> registered for it.
\<close>

record AbstractMesh =
  position :: Vector3
  disposed :: bool
  onDrag :: "nat option"

text \<open>
  \<open>Path3DMesh\<close>: the fields of the class (\<open>helpers\<close> and \<open>helperRef\<close> are \<open>_helpers\<close> and
  \<open>_helperRef\<close>; \<open>geometry\<close> is the vertex data last given to \<open>setAllVerticesData\<close>, positions
  and colours), together with the two object stores and the allocation counter of helper
  meshes.
\<close>

record Path3DMesh =
  curves :: "IPath3DMeshCurve list"
  helpers :: "nat list"
  helperRef :: "nat option"
  isVisible :: bool
  color :: Color3
  geometry :: "(Vector3 list \<times> Color4 list) option"
  vectors :: "nat \<Rightarrow> Vector3"
  meshes :: "nat \<Rightarrow> AbstractMesh"
  nextMesh :: nat

section \<open>Curve sampling\<close>

text \<open>
  Modelled from the spec: \<open>Curve3.CreateCubicBezier\<close> belongs to the rendering engine and is
  not part of the sources.  The spec describes it as
  \<open>sample(start, ctrl1, ctrl2, end, count)\<close>, an ordered sequence of \<open>count + 1\<close> points on
  the cubic Bezier curve of the four control points, parameterised uniformly over \<open>[0,1]\<close>,
  with \<open>count < 1\<close> an invalid input that is rejected with an error.
\<close>

definition bezier :: "real \<Rightarrow> real \<Rightarrow> real \<Rightarrow> real \<Rightarrow> real \<Rightarrow> real" where
  "bezier t a b c d =
     (1 - t) * (1 - t) * (1 - t) * a + 3 * t * (1 - t) * (1 - t) * b
       + 3 * t * t * (1 - t) * c + t * t * t * d"

definition bezierPoint :: "Vector3 \<Rightarrow> Vector3 \<Rightarrow> Vector3 \<Rightarrow> Vector3 \<Rightarrow> real \<Rightarrow> Vector3" where
  "bezierPoint start ctrl1 ctrl2 end t =
     Vector3 (bezier t (vx start) (vx ctrl1) (vx ctrl2) (vx end))
             (bezier t (vy start) (vy ctrl1) (vy ctrl2) (vy end))
             (bezier t (vz start) (vz ctrl1) (vz ctrl2) (vz end))"

definition sample :: "Vector3 \<Rightarrow> Vector3 \<Rightarrow> Vector3 \<Rightarrow> Vector3 \<Rightarrow> int \<Rightarrow> error + Vector3 list" where
  "sample start ctrl1 ctrl2 end count =
     (if count < 1 then Inl InvalidSampleCount
      else Inr (map (\<lambda>i. bezierPoint start ctrl1 ctrl2 end (real i / real_of_int count))
                    [0 ..< nat count + 1]))"

section \<open>Building the curves\<close>

text \<open>
  \<open>updateCurve\<close>: \<open>curve.curve = Curve3.CreateCubicBezier(v0, v1, v2, v3, nbPoints)\<close>.  When
  the sampler throws, the assignment does not happen and the exception leaves the method;
  the first component of the result is the exception, the second the curve object as the
  method leaves it.
\<close>

definition updateCurve ::
    "(nat \<Rightarrow> Vector3) \<Rightarrow> IPath3DMeshCurve \<Rightarrow> error option \<times> IPath3DMeshCurve" where
  "updateCurve H c =
     (case sample (H (v0 c)) (H (v1 c)) (H (v2 c)) (H (v3 c)) (nbPoints c) of
        Inl e \<Rightarrow> (Some e, c)
      | Inr ps \<Rightarrow> (None, c\<lparr>curve := Some ps\<rparr>))"

text \<open>\<open>buildCurves\<close>: the \<open>forEach\<close> over \<open>this.curves\<close>; an exception stops the iteration.\<close>

fun buildCurvesLoop ::
    "(nat \<Rightarrow> Vector3) \<Rightarrow> IPath3DMeshCurve list \<Rightarrow> error option \<times> IPath3DMeshCurve list" where
  "buildCurvesLoop H [] = (None, [])"
| "buildCurvesLoop H (c # cs) =
     (case updateCurve H c of
        (Some e, c') \<Rightarrow> (Some e, c' # cs)
      | (None, c') \<Rightarrow> (case buildCurvesLoop H cs of (r, cs') \<Rightarrow> (r, c' # cs')))"

definition buildCurves :: "Path3DMesh \<Rightarrow> error option \<times> Path3DMesh" where
  "buildCurves s =
     (case buildCurvesLoop (vectors s) (curves s) of (r, cs) \<Rightarrow> (r, s\<lparr>curves := cs\<rparr>))"

text \<open>
  \<open>getFinalCurvePoints\<close>: rebuild, then push every curve's points onto one array.  Reading
  the points of a \<open>null\<close> curve is a \<open>TypeError\<close>.
\<close>

fun pushPoints :: "IPath3DMeshCurve list \<Rightarrow> Vector3 list \<Rightarrow> error + Vector3 list" where
  "pushPoints [] points = Inr points"
| "pushPoints (c # cs) points =
     (case curve c of
        None \<Rightarrow> Inl TypeError
      | Some ps \<Rightarrow> pushPoints cs (points @ ps))"

definition getFinalCurvePoints :: "Path3DMesh \<Rightarrow> (error + Vector3 list) \<times> Path3DMesh" where
  "getFinalCurvePoints s =
     (case buildCurves s of
        (Some e, s1) \<Rightarrow> (Inl e, s1)
      | (None, s1) \<Rightarrow> (pushPoints (curves s1) [], s1))"

section \<open>Helpers\<close>

text \<open>
  \<open>xs[i]\<close> of JavaScript for an integral index: \<open>undefined\<close> (here \<open>None\<close>) outside the
  array.
\<close>

definition elemAt :: "'a list \<Rightarrow> int \<Rightarrow> 'a option" where
  "elemAt xs i = (if 0 \<le> i \<and> i < int (length xs) then Some (xs ! nat i) else None)"

definition dispose :: "nat \<Rightarrow> Path3DMesh \<Rightarrow> Path3DMesh" where
  "dispose h s = s\<lparr>meshes := (meshes s)(h := (meshes s h)\<lparr>disposed := True\<rparr>)\<rparr>"

text \<open>\<open>h.position.copyFrom(p)\<close> for a helper mesh \<open>h\<close>.\<close>

definition setPosition :: "nat \<Rightarrow> Vector3 \<Rightarrow> Path3DMesh \<Rightarrow> Path3DMesh" where
  "setPosition h p s = s\<lparr>meshes := (meshes s)(h := (meshes s h)\<lparr>position := p\<rparr>)\<rparr>"

text \<open>
  A mesh as the engine creates it (\<open>MeshBuilder.CreateSphere\<close>, \<open>createInstance\<close>).  Its
  position is overwritten by \<open>_showHelpers\<close> before anything reads it.
\<close>

definition newMesh :: AbstractMesh where
  "newMesh = \<lparr>position = Vector3 0 0 0, disposed = False, onDrag = None\<rparr>"

text \<open>
  \<open>_getHelper(index)\<close>: the helper at \<open>_helpers[index]\<close> or, when there is none, a new mesh
  (the sphere itself when \<open>_helperRef\<close> is \<open>null\<close>, which then becomes \<open>_helperRef\<close>, an
  instance of \<open>_helperRef\<close> otherwise).  The helper is pushed onto \<open>_helpers\<close> in both cases,
  and the callback closure over \<open>index\<close> is registered for it.
\<close>

definition getHelper :: "nat \<Rightarrow> Path3DMesh \<Rightarrow> nat \<times> Path3DMesh" where
  "getHelper index s =
     (let (helper, s1) =
            (if index < length (helpers s) then (helpers s ! index, s)
             else (nextMesh s,
                   s\<lparr>meshes := (meshes s)(nextMesh s := newMesh),
                     nextMesh := Suc (nextMesh s),
                     helperRef := (case helperRef s of
                                     Some r \<Rightarrow> Some r
                                   | None \<Rightarrow> Some (nextMesh s))\<rparr>));
          s2 = s1\<lparr>helpers := helpers s1 @ [helper]\<rparr>;
          s3 = s2\<lparr>meshes := (meshes s2)(helper := (meshes s2 helper)\<lparr>onDrag := Some index\<rparr>)\<rparr>
      in (helper, s3))"

text \<open>
  The \<open>forEach\<close> of \<open>_showHelpers\<close>: \<open>index\<close> and \<open>curveStart\<close> are the loop variables;
  \<open>copyFrom(undefined)\<close> is a \<open>TypeError\<close>.
\<close>

fun showHelpersLoop ::
    "Vector3 list \<Rightarrow> IPath3DMeshCurve list \<Rightarrow> nat \<Rightarrow> int \<Rightarrow> Path3DMesh
       \<Rightarrow> error option \<times> Path3DMesh" where
  "showHelpersLoop points [] index curveStart s = (None, s)"
| "showHelpersLoop points (c # cs) index curveStart s =
     (case getHelper index s of (h, s1) \<Rightarrow>
        (case elemAt points curveStart of
           None \<Rightarrow> (Some TypeError, s1)
         | Some p \<Rightarrow>
             showHelpersLoop points cs (Suc index) (curveStart + nbPoints c) (setPosition h p s1)))"

text \<open>
  The last loop of \<open>_showHelpers\<close>, from \<open>i\<close> down to \<open>curves.length + 1\<close>: dispose
  \<open>_helpers[i]\<close> and splice it out.
\<close>

function removeLastHelpers :: "int \<Rightarrow> Path3DMesh \<Rightarrow> error option \<times> Path3DMesh" where
  "removeLastHelpers i s =
     (if i > int (length (curves s)) then
        (case elemAt (helpers s) i of
           None \<Rightarrow> (Some TypeError, s)
         | Some h \<Rightarrow>
             removeLastHelpers (i - 1)
               ((dispose h s)\<lparr>helpers := take (nat i) (helpers s) @ drop (Suc (nat i)) (helpers s)\<rparr>))
      else (None, s))"
  by pat_completeness auto
termination
  by (relation "measure (\<lambda>(i, s). nat i)") auto

definition showHelpers :: "Path3DMesh \<Rightarrow> error option \<times> Path3DMesh" where
  "showHelpers s =
     (case getFinalCurvePoints s of
        (Inl e, s1) \<Rightarrow> (Some e, s1)
      | (Inr points, s1) \<Rightarrow>
          (case showHelpersLoop points (curves s1) 0 0 s1 of
             (Some e, s2) \<Rightarrow> (Some e, s2)
           | (None, s2) \<Rightarrow>
               (case getHelper (length (curves s2)) s2 of (h, s3) \<Rightarrow>
                  (case elemAt points (int (length points) - 1) of
                     None \<Rightarrow> (Some TypeError, s3)
                   | Some p \<Rightarrow>
                       removeLastHelpers (int (length (helpers s3)) - 1) (setPosition h p s3)))))"

definition hideHelpers :: "Path3DMesh \<Rightarrow> Path3DMesh" where
  "hideHelpers s = (fold dispose (helpers s) s)\<lparr>helpers := [], helperRef := None\<rparr>"

section \<open>Geometry and visibility\<close>

text \<open>\<open>_updateCurveGeometry(updateHelpers)\<close>, the private method.\<close>

definition private_updateCurveGeometry :: "bool \<Rightarrow> Path3DMesh \<Rightarrow> error option \<times> Path3DMesh" where
  "private_updateCurveGeometry updateHelpers s =
     (case getFinalCurvePoints s of
        (Inl e, s1) \<Rightarrow> (Some e, s1)
      | (Inr points, s1) \<Rightarrow>
          (let colors = map (\<lambda>_. Color4 (cr (color s1)) (cg (color s1)) (cb (color s1)) 1) points;
               s2 = s1\<lparr>geometry := Some (points, colors)\<rparr>
           in if updateHelpers \<and> isVisible s2 then showHelpers s2 else (None, s2)))"

definition updateCurveGeometry :: "Path3DMesh \<Rightarrow> error option \<times> Path3DMesh" where
  "updateCurveGeometry s = private_updateCurveGeometry True s"

definition "show" :: "Path3DMesh \<Rightarrow> error option \<times> Path3DMesh" where
  "show s = showHelpers (s\<lparr>isVisible := True\<rparr>)"

definition hide :: "Path3DMesh \<Rightarrow> Path3DMesh" where
  "hide s = hideHelpers (s\<lparr>isVisible := False\<rparr>)"

section \<open>The drag callback\<close>

text \<open>
  \<open>v.copyFrom(p)\<close> in the callback: \<open>Some a\<close> is the control point object at address \<open>a\<close>,
  \<open>None\<close> the local \<open>Vector3.Zero()\<close> that nothing else refers to.
\<close>

definition copyFrom :: "nat option \<Rightarrow> Vector3 \<Rightarrow> Path3DMesh \<Rightarrow> Path3DMesh" where
  "copyFrom target p s =
     (case target of None \<Rightarrow> s | Some a \<Rightarrow> s\<lparr>vectors := (vectors s)(a := p)\<rparr>)"

text \<open>
  The closure that \<open>_getHelper(index)\<close> hands to \<open>SceneFactory._SetMeshAsHelper\<close>, for the
  helper mesh \<open>helper\<close>.  Reading \<open>.v0\<close> or \<open>.v3\<close> of \<open>undefined\<close> is a \<open>TypeError\<close>.
\<close>

definition helperCallback :: "nat \<Rightarrow> nat \<Rightarrow> Path3DMesh \<Rightarrow> error option \<times> Path3DMesh" where
  "helperCallback index helper s =
     (let n = length (curves s);
          targets =
            (if index = n then
               (if n = 0 then Inl TypeError
                else Inr (None, Some (v3 (curves s ! (index - 1)))))
             else if index > 0 then
               (if index < n
                then Inr (Some (v0 (curves s ! index)), Some (v3 (curves s ! (index - 1))))
                else Inl TypeError)
             else Inr (Some (v0 (curves s ! index)), None))
      in case targets of
           Inl e \<Rightarrow> (Some e, s)
         | Inr (t0, t3) \<Rightarrow>
             private_updateCurveGeometry False
               (copyFrom t3 (position (meshes s helper))
                  (copyFrom t0 (position (meshes s helper)) s)))"

text \<open>
  Modelled from the spec: \<open>SceneFactory._SetMeshAsHelper\<close> is not part of the sources.  A
  drag moves the helper mesh to the new coordinate and then runs the callback registered
  for it.
\<close>

definition dragHelper :: "nat \<Rightarrow> Vector3 \<Rightarrow> Path3DMesh \<Rightarrow> error option \<times> Path3DMesh" where
  "dragHelper h p s =
     (case onDrag (meshes s h) of
        None \<Rightarrow> (None, setPosition h p s)
      | Some index \<Rightarrow> helperCallback index h (setPosition h p s))"

section \<open>The inspector\<close>

datatype property = PropV0 | PropV1 | PropV2 | PropV3

fun propertyOf :: "property \<Rightarrow> IPath3DMeshCurve \<Rightarrow> nat" where
  "propertyOf PropV0 c = v0 c"
| "propertyOf PropV1 c = v1 c"
| "propertyOf PropV2 c = v2 c"
| "propertyOf PropV3 c = v3 c"

text \<open>
  Modelled from the spec: \<open>InspectorVector3\<close> is not part of the sources.  It writes the
  edited coordinates into the vector object \<open>object[property]\<close> of the selected curve and
  calls \<open>onChange\<close>, which is \<open>updateCurveGeometry()\<close>.
\<close>

definition inspectorChange ::
    "nat \<Rightarrow> property \<Rightarrow> Vector3 \<Rightarrow> Path3DMesh \<Rightarrow> error option \<times> Path3DMesh" where
  "inspectorChange k prop p s =
     (if k < length (curves s)
      then updateCurveGeometry (s\<lparr>vectors := (vectors s)(propertyOf prop (curves s ! k) := p)\<rparr>)
      else (None, s))"

text \<open>
  \<open>_handleCurveNodeContextMenu\<close> for the tree node with id \<open>nodeId\<close>, followed by the click on
  the menu's only item: \<open>curves.splice(node.id, 1)\<close>, then \<open>updateCurveGeometry()\<close>.  With one
  curve or none the menu is not shown and nothing happens.
\<close>

definition handleCurveNodeContextMenu :: "nat \<Rightarrow> Path3DMesh \<Rightarrow> error option \<times> Path3DMesh" where
  "handleCurveNodeContextMenu nodeId s =
     (if length (curves s) \<le> 1 then (None, s)
      else updateCurveGeometry
             (s\<lparr>curves := take nodeId (curves s) @ drop (Suc nodeId) (curves s)\<rparr>))"

section \<open>Construction\<close>

text \<open>
  The field initialisers: eight \<open>new Vector3\<close> in evaluation order, at addresses 0 to 7.
\<close>

definition defaultVectors :: "nat \<Rightarrow> Vector3" where
  "defaultVectors =
     (\<lambda>_. Vector3 0 0 0)
       (0 := Vector3 0 0 0, 1 := Vector3 (5/2) (5/2) (-1/2), 2 := Vector3 (3/2) 2 (-1),
        3 := Vector3 1 1 1,
        4 := Vector3 1 1 1, 5 := Vector3 (5/2) (5/2) (-1/2), 6 := Vector3 (3/2) 2 (-1),
        7 := Vector3 0 3 0)"

definition defaultCurves :: "IPath3DMeshCurve list" where
  "defaultCurves =
     [\<lparr>curve = None, nbPoints = 10, v0 = 0, v1 = 1, v2 = 2, v3 = 3\<rparr>,
      \<lparr>curve = None, nbPoints = 10, v0 = 4, v1 = 5, v2 = 6, v3 = 7\<rparr>]"

definition initialFields :: Path3DMesh where
  "initialFields =
     \<lparr>curves = defaultCurves, helpers = [], helperRef = None, isVisible = True,
      color = Color3 1 0 0, geometry = None, vectors = defaultVectors,
      meshes = (\<lambda>_. newMesh), nextMesh = 0\<rparr>"

text \<open>The constructor body after the fields are set: \<open>hide\<close>, \<open>buildCurves\<close>, \<open>updateCurveGeometry\<close>.\<close>

definition constructor :: "error option \<times> Path3DMesh" where
  "constructor =
     (case buildCurves (hide initialFields) of
        (Some e, s) \<Rightarrow> (Some e, s)
      | (None, s) \<Rightarrow> updateCurveGeometry s)"

section \<open>Auxiliary notions for the proofs\<close>

text \<open>The sample sequence of a curve whose count is valid, and the curve after its rebuild.\<close>

definition samplesOf :: "(nat \<Rightarrow> Vector3) \<Rightarrow> IPath3DMeshCurve \<Rightarrow> Vector3 list" where
  "samplesOf H c =
     map (\<lambda>i. bezierPoint (H (v0 c)) (H (v1 c)) (H (v2 c)) (H (v3 c))
                 (real i / real_of_int (nbPoints c)))
         [0 ..< nat (nbPoints c) + 1]"

definition rebuilt :: "(nat \<Rightarrow> Vector3) \<Rightarrow> IPath3DMeshCurve \<Rightarrow> IPath3DMeshCurve" where
  "rebuilt H c = c\<lparr>curve := Some (samplesOf H c)\<rparr>"

definition validCounts :: "IPath3DMeshCurve list \<Rightarrow> bool" where
  "validCounts cs = (\<forall>c \<in> set cs. 1 \<le> nbPoints c)"

text \<open>The part of a curve that no rebuild touches: the sample count and the four references.\<close>

definition controlRefs :: "IPath3DMeshCurve \<Rightarrow> int \<times> nat \<times> nat \<times> nat \<times> nat" where
  "controlRefs c = (nbPoints c, v0 c, v1 c, v2 c, v3 c)"

text \<open>Two states that differ at most in the helper pool and the helper meshes.\<close>

definition sameData :: "Path3DMesh \<Rightarrow> Path3DMesh \<Rightarrow> bool" where
  "sameData s s' \<longleftrightarrow>
     curves s' = curves s \<and> vectors s' = vectors s \<and> geometry s' = geometry s
     \<and> isVisible s' = isVisible s \<and> color s' = color s"

text \<open>Every helper in the pool was allocated: its identity is below the allocation counter.\<close>

definition wfPool :: "Path3DMesh \<Rightarrow> bool" where
  "wfPool s \<longleftrightarrow> (\<forall>h \<in> set (helpers s). h < nextMesh s)"

text \<open>The mesh store after \<open>dispose()\<close> on every mesh of a list.\<close>

definition disposeAll :: "nat list \<Rightarrow> (nat \<Rightarrow> AbstractMesh) \<Rightarrow> (nat \<Rightarrow> AbstractMesh)" where
  "disposeAll hs M = (\<lambda>h. if h \<in> set hs then (M h)\<lparr>disposed := True\<rparr> else M h)"

text \<open>The combined polyline of a state: what \<open>getFinalCurvePoints\<close> returns, empty when it throws.\<close>

definition polyline :: "Path3DMesh \<Rightarrow> Vector3 list" where
  "polyline s = (case fst (getFinalCurvePoints s) of Inr points \<Rightarrow> points | Inl e \<Rightarrow> [])"

text \<open>The state in which the constructor leaves a new mesh.\<close>

definition builtDefault :: Path3DMesh where
  "builtDefault =
     initialFields\<lparr>isVisible := False,
       curves := map (rebuilt defaultVectors) defaultCurves,
       geometry := Some (concat (map (samplesOf defaultVectors) defaultCurves),
                         map (\<lambda>_. Color4 1 0 0 1)
                             (concat (map (samplesOf defaultVectors) defaultCurves)))\<rparr>"

text \<open>No helper of the pool has been disposed.\<close>

definition alivePool :: "Path3DMesh \<Rightarrow> bool" where
  "alivePool s \<longleftrightarrow> (\<forall>h \<in> set (helpers s). \<not> disposed (meshes s h))"

text \<open>The default path after construction and \<open>show()\<close>.\<close>

definition shownDefault :: Path3DMesh where
  "shownDefault = snd (show (snd constructor))"

text \<open>
  A visible path of three segments with 4 samples each, and the state after its
  \<open>show()\<close> and a drag of the helper of slot 1 to \<open>(5,5,5)\<close>.
\<close>

definition threeSegments :: Path3DMesh where
  "threeSegments =
     initialFields\<lparr>curves :=
        [\<lparr>curve = None, nbPoints = 4, v0 = 0, v1 = 1, v2 = 2, v3 = 3\<rparr>,
         \<lparr>curve = None, nbPoints = 4, v0 = 4, v1 = 5, v2 = 6, v3 = 7\<rparr>,
         \<lparr>curve = None, nbPoints = 4, v0 = 8, v1 = 9, v2 = 10, v3 = 11\<rparr>],
       vectors := defaultVectors(8 := Vector3 0 3 0, 9 := Vector3 1 4 0,
                                 10 := Vector3 2 4 0, 11 := Vector3 3 3 0)\<rparr>"

definition draggedThree :: Path3DMesh where
  "draggedThree = snd (dragHelper 1 (Vector3 5 5 5) (snd (show threeSegments)))"

text \<open>
  The states a mesh can be in: the state after construction, and every state that one of
  the public methods, a drag of a helper or one of the inspector's two edits leads to,
  whether the operation returns or throws.  \<open>pathInv\<close> is what all of them satisfy.
\<close>

definition pathInv :: "Path3DMesh \<Rightarrow> bool" where
  "pathInv s \<longleftrightarrow> curves s \<noteq> [] \<and> validCounts (curves s) \<and> wfPool s"

inductive reachable :: "Path3DMesh \<Rightarrow> bool" where
  r_new: "reachable (snd constructor)"
| r_show: "reachable s \<Longrightarrow> reachable (snd (show s))"
| r_hide: "reachable s \<Longrightarrow> reachable (hide s)"
| r_buildCurves: "reachable s \<Longrightarrow> reachable (snd (buildCurves s))"
| r_updateCurve:
    "reachable s \<Longrightarrow> k < length (curves s) \<Longrightarrow>
     reachable (s\<lparr>curves := (curves s)[k := snd (updateCurve (vectors s) (curves s ! k))]\<rparr>)"
| r_getFinalCurvePoints: "reachable s \<Longrightarrow> reachable (snd (getFinalCurvePoints s))"
| r_updateCurveGeometry: "reachable s \<Longrightarrow> reachable (snd (updateCurveGeometry s))"
| r_drag: "reachable s \<Longrightarrow> reachable (snd (dragHelper h p s))"
| r_inspector: "reachable s \<Longrightarrow> reachable (snd (inspectorChange k prop p s))"
| r_remove: "reachable s \<Longrightarrow> reachable (snd (handleCurveNodeContextMenu nodeId s))"

text \<open>
  The sample counts and references of the default path, and what every reachable state's
  path consists of: the default segments, or one of the two.
\<close>

definition defaultRefs :: "(int \<times> nat \<times> nat \<times> nat \<times> nat) list" where
  "defaultRefs = [(10, 0, 1, 2, 3), (10, 4, 5, 6, 7)]"

definition refsInv :: "Path3DMesh \<Rightarrow> bool" where
  "refsInv s \<longleftrightarrow>
     map controlRefs (curves s) = defaultRefs
     \<or> map controlRefs (curves s) = [defaultRefs ! 0]
     \<or> map controlRefs (curves s) = [defaultRefs ! 1]"

text \<open>
  The size of the helper pool: segment count + 1 while the mesh is visible, none while it
  is hidden.
\<close>

definition poolInv :: "Path3DMesh \<Rightarrow> bool" where
  "poolInv s \<longleftrightarrow>
     (if isVisible s then length (helpers s) = length (curves s) + 1 else helpers s = [])"

section \<open>Sampling one segment\<close>

lemma bezier_0: "bezier 0 a b c d = a"
  by (simp add: bezier_def)

lemma bezier_1: "bezier 1 a b c d = d"
  by (simp add: bezier_def)

lemma bezierPoint_0: "bezierPoint p0 p1 p2 p3 0 = p0"
  by (simp add: bezierPoint_def bezier_0)

lemma bezierPoint_1: "bezierPoint p0 p1 p2 p3 1 = p3"
  by (simp add: bezierPoint_def bezier_1)

lemma sample_Inr:
  "1 \<le> count \<Longrightarrow>
   sample p0 p1 p2 p3 count =
     Inr (map (\<lambda>i. bezierPoint p0 p1 p2 p3 (real i / real_of_int count)) [0 ..< nat count + 1])"
  by (simp add: sample_def)

lemma sample_length:
  "sample p0 p1 p2 p3 count = Inr ps \<Longrightarrow> length ps = nat count + 1"
  by (auto simp: sample_def split: if_splits)

lemma sample_nth:
  "sample p0 p1 p2 p3 count = Inr ps \<Longrightarrow> i \<le> nat count \<Longrightarrow>
   ps ! i = bezierPoint p0 p1 p2 p3 (real i / real_of_int count)"
proof -
  assume a: "sample p0 p1 p2 p3 count = Inr ps" and i: "i \<le> nat count"
  from a have ps: "ps = map (\<lambda>i. bezierPoint p0 p1 p2 p3 (real i / real_of_int count))
                              [0 ..< nat count + 1]"
    by (auto simp: sample_def split: if_splits)
  from i have "i < length [0 ..< nat count + 1]" by simp
  then have "ps ! i = bezierPoint p0 p1 p2 p3 (real ([0 ..< nat count + 1] ! i) / real_of_int count)"
    unfolding ps by (rule nth_map)
  moreover from i have "[0 ..< nat count + 1] ! i = i"
    by (metis add.left_neutral less_Suc_eq_le nth_upt Suc_eq_plus1)
  ultimately show ?thesis by simp
qed

lemma sample_first: "sample p0 p1 p2 p3 count = Inr ps \<Longrightarrow> ps ! 0 = p0"
  using sample_nth [of p0 p1 p2 p3 count ps 0] by (simp add: bezierPoint_0)

lemma sample_last: "sample p0 p1 p2 p3 count = Inr ps \<Longrightarrow> ps ! nat count = p3"
proof -
  assume a: "sample p0 p1 p2 p3 count = Inr ps"
  then have c: "1 \<le> count" by (auto simp: sample_def split: if_splits)
  then have "real (nat count) / real_of_int count = 1" by simp
  with sample_nth [OF a, of "nat count"] show ?thesis by (simp add: bezierPoint_1)
qed

lemma sample_ne: "sample p0 p1 p2 p3 count = Inr ps \<Longrightarrow> ps \<noteq> []"
  by (drule sample_length) auto

text \<open>
  Claim C3.  For every sample count \<open>count \<ge> 1\<close> and all control points, sampling one
  segment succeeds and returns exactly \<open>count + 1\<close> points; the point at position \<open>i\<close> is
  the Bezier point at parameter \<open>i / count\<close>, so the points are ordered by a uniform
  parameter over \<open>[0,1]\<close>; the first point is \<open>start\<close> and the last is \<open>end\<close>.  The sampler
  is a function of its five arguments alone and returns a fresh list, which is what
  deterministic and free of side effects mean here.
\<close>

theorem sample_count_endpoints:
  "1 \<le> count \<Longrightarrow>
   \<exists>ps. sample start ctrl1 ctrl2 end count = Inr ps \<and> length ps = nat count + 1
        \<and> ps ! 0 = start \<and> ps ! nat count = end
        \<and> (\<forall>i \<le> nat count. ps ! i = bezierPoint start ctrl1 ctrl2 end (real i / real_of_int count))"
proof -
  assume c: "1 \<le> count"
  define ps where "ps = map (\<lambda>i. bezierPoint start ctrl1 ctrl2 end (real i / real_of_int count))
                             [0 ..< nat count + 1]"
  have s: "sample start ctrl1 ctrl2 end count = Inr ps"
    unfolding ps_def using c by (rule sample_Inr)
  have "length ps = nat count + 1" by (rule sample_length [OF s])
  moreover have "ps ! 0 = start" by (rule sample_first [OF s])
  moreover have "ps ! nat count = end" by (rule sample_last [OF s])
  moreover have "\<forall>i \<le> nat count. ps ! i = bezierPoint start ctrl1 ctrl2 end (real i / real_of_int count)"
    using sample_nth [OF s] by blast
  ultimately show ?thesis using s by blast
qed

theorem sample_count_endpoints_witness:
  "(1::int) \<le> 2 \<and>
   (\<exists>ps. sample (Vector3 0 0 0) (Vector3 1 2 3) (Vector3 2 0 1) (Vector3 4 4 4) 2 = Inr ps
      \<and> length ps = 3 \<and> ps ! 0 = Vector3 0 0 0 \<and> ps ! 2 = Vector3 4 4 4
      \<and> ps ! 1 = bezierPoint (Vector3 0 0 0) (Vector3 1 2 3) (Vector3 2 0 1) (Vector3 4 4 4) (1 / 2))"
  using sample_count_endpoints [of 2 "Vector3 0 0 0" "Vector3 1 2 3" "Vector3 2 0 1" "Vector3 4 4 4"]
  by auto

section \<open>Rejected sample counts\<close>

lemma updateCurve_valid:
  "1 \<le> nbPoints c \<Longrightarrow> updateCurve H c = (None, rebuilt H c)"
  by (simp add: updateCurve_def sample_def rebuilt_def samplesOf_def)

lemma updateCurve_invalid:
  "nbPoints c < 1 \<Longrightarrow> updateCurve H c = (Some InvalidSampleCount, c)"
  by (simp add: updateCurve_def sample_def)

lemma buildCurvesLoop_valid:
  "validCounts cs \<Longrightarrow> buildCurvesLoop H cs = (None, map (rebuilt H) cs)"
  by (induction cs) (simp_all add: validCounts_def updateCurve_valid)

lemma buildCurvesLoop_invalid:
  "\<not> validCounts cs \<Longrightarrow> fst (buildCurvesLoop H cs) = Some InvalidSampleCount"
proof (induction cs)
  case Nil
  then show ?case by (simp add: validCounts_def)
next
  case (Cons c cs)
  show ?case
  proof (cases "1 \<le> nbPoints c")
    case True
    with Cons.prems have "\<not> validCounts cs" by (simp add: validCounts_def)
    with Cons.IH True show ?thesis
      by (cases "buildCurvesLoop H cs") (simp add: updateCurve_valid)
  next
    case False
    then show ?thesis by (simp add: updateCurve_invalid)
  qed
qed

lemma buildCurvesLoop_keeps:
  "k < length cs \<Longrightarrow> nbPoints (cs ! k) < 1 \<Longrightarrow>
   fst (buildCurvesLoop H cs) = Some InvalidSampleCount \<and> snd (buildCurvesLoop H cs) ! k = cs ! k"
proof (induction cs arbitrary: k)
  case Nil
  then show ?case by simp
next
  case (Cons c cs)
  show ?case
  proof (cases "nbPoints c < 1")
    case True
    then show ?thesis by (simp add: updateCurve_invalid)
  next
    case False
    then have c: "1 \<le> nbPoints c" by simp
    with Cons.prems obtain k' where k: "k = Suc k'" by (cases k) auto
    with Cons.prems have "k' < length cs" "nbPoints (cs ! k') < 1" by simp_all
    then have "fst (buildCurvesLoop H cs) = Some InvalidSampleCount
             \<and> snd (buildCurvesLoop H cs) ! k' = cs ! k'"
      by (rule Cons.IH)
    with c k show ?thesis
      by (cases "buildCurvesLoop H cs") (simp add: updateCurve_valid)
  qed
qed

text \<open>
  Claim C4.  A sample count below 1 is rejected by the sampler with \<open>InvalidSampleCount\<close>,
  whatever the control points.  For every segment \<open>k\<close> of a path that has such a count,
  \<open>updateCurve\<close> on it and \<open>buildCurves\<close> on the path both end with that error, and the
  curve object of segment \<open>k\<close>, its cached samples included, is what it was before.
\<close>

theorem invalid_sample_count_rejected:
  assumes "k < length (curves s)" and "nbPoints (curves s ! k) < 1"
  shows "sample p0 p1 p2 p3 (nbPoints (curves s ! k)) = Inl InvalidSampleCount
       \<and> updateCurve (vectors s) (curves s ! k) = (Some InvalidSampleCount, curves s ! k)
       \<and> fst (buildCurves s) = Some InvalidSampleCount
       \<and> curves (snd (buildCurves s)) ! k = curves s ! k"
proof -
  have "sample p0 p1 p2 p3 (nbPoints (curves s ! k)) = Inl InvalidSampleCount"
    using assms(2) by (simp add: sample_def)
  moreover have "updateCurve (vectors s) (curves s ! k) = (Some InvalidSampleCount, curves s ! k)"
    using assms(2) by (rule updateCurve_invalid)
  moreover have b: "fst (buildCurvesLoop (vectors s) (curves s)) = Some InvalidSampleCount
      \<and> snd (buildCurvesLoop (vectors s) (curves s)) ! k = curves s ! k"
    using assms by (rule buildCurvesLoop_keeps)
  then have "fst (buildCurves s) = Some InvalidSampleCount
      \<and> curves (snd (buildCurves s)) ! k = curves s ! k"
    by (cases "buildCurvesLoop (vectors s) (curves s)") (simp add: buildCurves_def)
  ultimately show ?thesis by blast
qed

theorem invalid_sample_count_rejected_witness:
  "(let s = initialFields\<lparr>curves :=
              [\<lparr>curve = None, nbPoints = 10, v0 = 0, v1 = 1, v2 = 2, v3 = 3\<rparr>,
               \<lparr>curve = Some [Vector3 1 1 1], nbPoints = 0, v0 = 4, v1 = 5, v2 = 6, v3 = 7\<rparr>]\<rparr>
    in 1 < length (curves s) \<and> nbPoints (curves s ! 1) < 1
       \<and> fst (buildCurves s) = Some InvalidSampleCount
       \<and> curve (curves (snd (buildCurves s)) ! 1) = Some [Vector3 1 1 1])"
  using invalid_sample_count_rejected
    [of 1 "initialFields\<lparr>curves :=
              [\<lparr>curve = None, nbPoints = 10, v0 = 0, v1 = 1, v2 = 2, v3 = 3\<rparr>,
               \<lparr>curve = Some [Vector3 1 1 1], nbPoints = 0, v0 = 4, v1 = 5, v2 = 6, v3 = 7\<rparr>]\<rparr>"]
  by (simp add: Let_def)

section \<open>The combined polyline\<close>

lemma sample_samplesOf:
  "1 \<le> nbPoints c \<Longrightarrow>
   sample (H (v0 c)) (H (v1 c)) (H (v2 c)) (H (v3 c)) (nbPoints c) = Inr (samplesOf H c)"
  by (simp add: sample_def samplesOf_def)

lemma samplesOf_length: "length (samplesOf H c) = nat (nbPoints c) + 1"
  by (simp add: samplesOf_def)

lemma samplesOf_ne: "samplesOf H c \<noteq> []"
  using samplesOf_length [of H c] by auto

lemma samplesOf_first: "1 \<le> nbPoints c \<Longrightarrow> samplesOf H c ! 0 = H (v0 c)"
  by (rule sample_first [OF sample_samplesOf])

lemma samplesOf_last: "1 \<le> nbPoints c \<Longrightarrow> last (samplesOf H c) = H (v3 c)"
proof -
  assume c: "1 \<le> nbPoints c"
  have "last (samplesOf H c) = samplesOf H c ! (length (samplesOf H c) - 1)"
    by (rule last_conv_nth [OF samplesOf_ne])
  also have "\<dots> = samplesOf H c ! nat (nbPoints c)"
    by (simp add: samplesOf_length)
  also have "\<dots> = H (v3 c)"
    by (rule sample_last [OF sample_samplesOf [OF c]])
  finally show ?thesis .
qed

lemma pushPoints_rebuilt:
  "pushPoints (map (rebuilt H) cs) acc = Inr (acc @ concat (map (samplesOf H) cs))"
  by (induction cs arbitrary: acc) (simp_all add: rebuilt_def)

lemma buildCurves_valid:
  "validCounts (curves s) \<Longrightarrow>
   buildCurves s = (None, s\<lparr>curves := map (rebuilt (vectors s)) (curves s)\<rparr>)"
  by (simp add: buildCurves_def buildCurvesLoop_valid)

lemma buildCurves_invalid:
  "\<not> validCounts (curves s) \<Longrightarrow> fst (buildCurves s) = Some InvalidSampleCount"
  using buildCurvesLoop_invalid [of "curves s" "vectors s"]
  by (cases "buildCurvesLoop (vectors s) (curves s)") (simp add: buildCurves_def)

lemma getFinalCurvePoints_valid:
  "validCounts (curves s) \<Longrightarrow>
   getFinalCurvePoints s =
     (Inr (concat (map (samplesOf (vectors s)) (curves s))),
      s\<lparr>curves := map (rebuilt (vectors s)) (curves s)\<rparr>)"
  by (simp add: getFinalCurvePoints_def buildCurves_valid pushPoints_rebuilt)

lemma getFinalCurvePoints_invalid:
  "\<not> validCounts (curves s) \<Longrightarrow> fst (getFinalCurvePoints s) = Inl InvalidSampleCount"
  using buildCurves_invalid [of s]
  by (cases "buildCurves s") (simp add: getFinalCurvePoints_def)

lemma getFinalCurvePoints_Inr:
  "getFinalCurvePoints s = (Inr pts, s') \<Longrightarrow> validCounts (curves s)"
  using getFinalCurvePoints_invalid [of s] by (cases "validCounts (curves s)") auto

lemma concat_joint:
  assumes "Suc i < length pss" and "pss ! i \<noteq> []" and "pss ! Suc i \<noteq> []"
  shows "concat pss ! (length (concat (take (Suc i) pss)) - 1) = last (pss ! i)
       \<and> concat pss ! length (concat (take (Suc i) pss)) = pss ! Suc i ! 0"
proof -
  let ?A = "concat (take (Suc i) pss)" and ?B = "concat (drop (Suc i) pss)"
  have split: "concat pss = ?A @ ?B"
    by (metis append_take_drop_id concat_append)
  have A: "?A = concat (take i pss) @ pss ! i"
    using assms(1) by (simp add: take_Suc_conv_app_nth)
  have B: "?B = pss ! Suc i @ concat (drop (Suc (Suc i)) pss)"
    using assms(1) by (metis Cons_nth_drop_Suc concat.simps(2))
  have Ane: "?A \<noteq> []" using A assms(2) by simp
  have "concat pss ! (length ?A - 1) = ?A ! (length ?A - 1)"
    unfolding split using Ane by (simp add: nth_append)
  also have "\<dots> = last ?A" using Ane by (simp add: last_conv_nth)
  also have "\<dots> = last (pss ! i)" using A assms(2) by simp
  finally have 1: "concat pss ! (length ?A - 1) = last (pss ! i)" .
  have "concat pss ! length ?A = ?B ! 0"
    unfolding split by (simp add: nth_append)
  also have "\<dots> = pss ! Suc i ! 0"
    using B assms(3) by (simp add: nth_append)
  finally show ?thesis using 1 by blast
qed

text \<open>
  Claim C10.  When \<open>getFinalCurvePoints\<close> returns, its result is the concatenation, in
  segment order, of the full sample sequence of every segment; its length is the sum of
  the lengths of these sequences; and where segments \<open>i\<close> and \<open>i + 1\<close> agree on the joint
  coordinate, that coordinate is both the last point contributed by segment \<open>i\<close> and the
  next point, the first contributed by segment \<open>i + 1\<close>: two consecutive equal points.
\<close>

theorem final_points_concatenation:
  assumes "getFinalCurvePoints s = (Inr pts, s')"
  shows "\<exists>pss. length pss = length (curves s)
      \<and> (\<forall>i < length (curves s).
            sample (vectors s (v0 (curves s ! i))) (vectors s (v1 (curves s ! i)))
                   (vectors s (v2 (curves s ! i))) (vectors s (v3 (curves s ! i)))
                   (nbPoints (curves s ! i)) = Inr (pss ! i))
      \<and> pts = concat pss
      \<and> length pts = sum_list (map length pss)
      \<and> (\<forall>i. Suc i < length (curves s) \<longrightarrow>
              vectors s (v3 (curves s ! i)) = vectors s (v0 (curves s ! Suc i)) \<longrightarrow>
              pts ! (length (concat (take (Suc i) pss)) - 1) = vectors s (v3 (curves s ! i))
            \<and> pts ! length (concat (take (Suc i) pss)) = vectors s (v3 (curves s ! i)))"
proof -
  let ?H = "vectors s" and ?cs = "curves s"
  define pss where "pss = map (samplesOf ?H) ?cs"
  have valid: "validCounts ?cs" using assms by (rule getFinalCurvePoints_Inr)
  then have nb: "1 \<le> nbPoints (?cs ! i)" if "i < length ?cs" for i
    using that by (simp add: validCounts_def)
  have pts: "pts = concat pss"
    using assms getFinalCurvePoints_valid [OF valid] by (simp add: pss_def)
  have len: "length pss = length ?cs" by (simp add: pss_def)
  have smp: "\<forall>i < length ?cs.
            sample (?H (v0 (?cs ! i))) (?H (v1 (?cs ! i))) (?H (v2 (?cs ! i))) (?H (v3 (?cs ! i)))
                   (nbPoints (?cs ! i)) = Inr (pss ! i)"
    using nb by (simp add: pss_def sample_samplesOf)
  have cnt: "length pts = sum_list (map length pss)"
    unfolding pts by (rule length_concat)
  have joint: "pts ! (length (concat (take (Suc i) pss)) - 1) = ?H (v3 (?cs ! i))
            \<and> pts ! length (concat (take (Suc i) pss)) = ?H (v3 (?cs ! i))"
    if i: "Suc i < length ?cs" and eq: "?H (v3 (?cs ! i)) = ?H (v0 (?cs ! Suc i))" for i
  proof -
    from i have i0: "i < length ?cs" by simp
    have a: "pss ! i = samplesOf ?H (?cs ! i)" using i0 by (simp add: pss_def)
    have b: "pss ! Suc i = samplesOf ?H (?cs ! Suc i)" using i by (simp add: pss_def)
    have "concat pss ! (length (concat (take (Suc i) pss)) - 1) = last (pss ! i)
        \<and> concat pss ! length (concat (take (Suc i) pss)) = pss ! Suc i ! 0"
      using i len by (intro concat_joint) (simp_all add: a b samplesOf_ne)
    then show ?thesis
      unfolding pts a b using samplesOf_last [OF nb [OF i0]] samplesOf_first [OF nb [OF i]] eq
      by simp
  qed
  from len smp pts cnt joint show ?thesis by blast
qed

theorem final_points_concatenation_witness:
  "\<exists>pts s'. getFinalCurvePoints initialFields = (Inr pts, s')
      \<and> length pts = 22 \<and> pts ! 10 = Vector3 1 1 1 \<and> pts ! 11 = Vector3 1 1 1"
proof -
  let ?s = initialFields
  have v: "validCounts (curves ?s)"
    by (simp add: initialFields_def defaultCurves_def validCounts_def)
  obtain pts s' where g: "getFinalCurvePoints ?s = (Inr pts, s')"
    using getFinalCurvePoints_valid [OF v] by blast
  from final_points_concatenation [OF g] obtain pss where
    len: "length pss = length (curves ?s)"
    and smp: "\<forall>i < length (curves ?s).
            sample (vectors ?s (v0 (curves ?s ! i))) (vectors ?s (v1 (curves ?s ! i)))
                   (vectors ?s (v2 (curves ?s ! i))) (vectors ?s (v3 (curves ?s ! i)))
                   (nbPoints (curves ?s ! i)) = Inr (pss ! i)"
    and cnt: "length pts = sum_list (map length pss)"
    and joint: "\<forall>i. Suc i < length (curves ?s) \<longrightarrow>
              vectors ?s (v3 (curves ?s ! i)) = vectors ?s (v0 (curves ?s ! Suc i)) \<longrightarrow>
              pts ! (length (concat (take (Suc i) pss)) - 1) = vectors ?s (v3 (curves ?s ! i))
            \<and> pts ! length (concat (take (Suc i) pss)) = vectors ?s (v3 (curves ?s ! i))"
    by blast
  have n: "length (curves ?s) = 2" by (simp add: initialFields_def defaultCurves_def)
  have nb: "nbPoints (curves ?s ! 0) = 10" "nbPoints (curves ?s ! 1) = 10"
    by (simp_all add: initialFields_def defaultCurves_def)
  have s0: "sample (vectors ?s (v0 (curves ?s ! 0))) (vectors ?s (v1 (curves ?s ! 0)))
                   (vectors ?s (v2 (curves ?s ! 0))) (vectors ?s (v3 (curves ?s ! 0)))
                   (nbPoints (curves ?s ! 0)) = Inr (pss ! 0)"
    using smp n by simp
  have l0: "length (pss ! 0) = 11" using sample_length [OF s0] nb(1) by simp
  have s1: "sample (vectors ?s (v0 (curves ?s ! 1))) (vectors ?s (v1 (curves ?s ! 1)))
                   (vectors ?s (v2 (curves ?s ! 1))) (vectors ?s (v3 (curves ?s ! 1)))
                   (nbPoints (curves ?s ! 1)) = Inr (pss ! 1)"
    using smp n by simp
  have l1: "length (pss ! 1) = 11" using sample_length [OF s1] nb(2) by simp
  obtain a b where pss: "pss = [a, b]"
    using len n by (cases pss; cases "tl pss") auto
  have j: "vectors ?s (v3 (curves ?s ! 0)) = Vector3 1 1 1"
          "vectors ?s (v0 (curves ?s ! Suc 0)) = Vector3 1 1 1"
    by (simp_all add: initialFields_def defaultCurves_def defaultVectors_def)
  have "pts ! (length (concat (take (Suc 0) pss)) - 1) = Vector3 1 1 1
      \<and> pts ! length (concat (take (Suc 0) pss)) = Vector3 1 1 1"
    using joint n j by simp
  with l0 l1 cnt pss g show ?thesis by simp
qed

section \<open>The helper pool: frame and size\<close>

lemma sameData_refl: "sameData s s"
  by (simp add: sameData_def)

lemma sameData_trans: "sameData s s1 \<Longrightarrow> sameData s1 s2 \<Longrightarrow> sameData s s2"
  by (simp add: sameData_def)

lemma dispose_same: "sameData s (dispose h s)"
  by (simp add: sameData_def dispose_def)

lemma setPosition_same: "sameData s (setPosition h p s)"
  by (simp add: sameData_def setPosition_def)

lemma getHelper_same: "sameData s (snd (getHelper i s))"
  by (simp add: sameData_def getHelper_def Let_def split: option.splits)

lemma getHelper_helpers: "helpers (snd (getHelper i s)) = helpers s @ [fst (getHelper i s)]"
  by (simp add: getHelper_def Let_def)

lemma getHelper_old:
  "i < length (helpers s) \<Longrightarrow>
   fst (getHelper i s) = helpers s ! i \<and> nextMesh (snd (getHelper i s)) = nextMesh s"
  by (simp add: getHelper_def Let_def)

lemma getHelper_new:
  "length (helpers s) \<le> i \<Longrightarrow>
   fst (getHelper i s) = nextMesh s \<and> nextMesh (snd (getHelper i s)) = Suc (nextMesh s)"
  by (simp add: getHelper_def Let_def)

lemma getHelper_wf: "wfPool s \<Longrightarrow> wfPool (snd (getHelper i s))"
  by (cases "i < length (helpers s)")
     (auto simp: wfPool_def getHelper_def Let_def less_Suc_eq)

lemma setPosition_fields:
  "helpers (setPosition h p s) = helpers s" "nextMesh (setPosition h p s) = nextMesh s"
  "helperRef (setPosition h p s) = helperRef s"
  by (simp_all add: setPosition_def)

lemma setPosition_wf: "wfPool s \<Longrightarrow> wfPool (setPosition h p s)"
  by (simp add: wfPool_def setPosition_fields)

lemma showHelpersLoop_same: "sameData s (snd (showHelpersLoop pts cs i k s))"
proof (induction cs arbitrary: i k s)
  case Nil
  show ?case by (simp add: sameData_refl)
next
  case (Cons c cs)
  obtain h s1 where g: "getHelper i s = (h, s1)" by (cases "getHelper i s")
  have s1: "sameData s s1" using getHelper_same [of s i] g by simp
  show ?case
  proof (cases "elemAt pts k")
    case None
    with g s1 show ?thesis by simp
  next
    case (Some p)
    have "sameData s1 (setPosition h p s1)" by (rule setPosition_same)
    with s1 have "sameData s (setPosition h p s1)" by (rule sameData_trans)
    moreover have "sameData (setPosition h p s1)
        (snd (showHelpersLoop pts cs (Suc i) (k + nbPoints c) (setPosition h p s1)))"
      by (rule Cons.IH)
    ultimately show ?thesis using g Some by (simp add: sameData_trans)
  qed
qed

lemma showHelpersLoop_wf: "wfPool s \<Longrightarrow> wfPool (snd (showHelpersLoop pts cs i k s))"
proof (induction cs arbitrary: i k s)
  case Nil
  then show ?case by simp
next
  case (Cons c cs)
  obtain h s1 where g: "getHelper i s = (h, s1)" by (cases "getHelper i s")
  have s1: "wfPool s1" using getHelper_wf [OF Cons.prems, of i] g by simp
  show ?case
  proof (cases "elemAt pts k")
    case None
    with g s1 show ?thesis by simp
  next
    case (Some p)
    have "wfPool (setPosition h p s1)" using s1 by (rule setPosition_wf)
    then have "wfPool (snd (showHelpersLoop pts cs (Suc i) (k + nbPoints c) (setPosition h p s1)))"
      by (rule Cons.IH)
    then show ?thesis using g Some by simp
  qed
qed

lemma showHelpersLoop_length:
  "showHelpersLoop pts cs i k s = (None, s') \<Longrightarrow>
   length (helpers s') = length (helpers s) + length cs
   \<and> take (length (helpers s)) (helpers s') = helpers s"
proof (induction cs arbitrary: i k s)
  case Nil
  then show ?case by simp
next
  case (Cons c cs)
  obtain h s1 where g: "getHelper i s = (h, s1)" by (cases "getHelper i s")
  have h1: "helpers s1 = helpers s @ [h]" using getHelper_helpers [of i s] g by simp
  show ?case
  proof (cases "elemAt pts k")
    case None
    with g Cons.prems show ?thesis by simp
  next
    case (Some p)
    with g Cons.prems
    have "showHelpersLoop pts cs (Suc i) (k + nbPoints c) (setPosition h p s1) = (None, s')"
      by simp
    from Cons.IH [OF this]
    have l: "length (helpers s') = length (helpers s1) + length cs"
      and t: "take (length (helpers s1)) (helpers s') = helpers s1"
      by (simp_all add: setPosition_fields)
    from l h1 have "length (helpers s') = length (helpers s) + length (c # cs)" by simp
    moreover have "take (length (helpers s)) (helpers s') = helpers s"
    proof -
      have "take (length (helpers s)) (take (length (helpers s1)) (helpers s')) =
            take (length (helpers s)) (helpers s1)" by (simp only: t)
      then show ?thesis using h1 by (simp add: min_def)
    qed
    ultimately show ?thesis by blast
  qed
qed

lemma showHelpersLoop_succeeds:
  "validCounts cs \<Longrightarrow> 0 \<le> k \<Longrightarrow> k + sum_list (map nbPoints cs) < int (length pts) \<Longrightarrow>
   fst (showHelpersLoop pts cs i k s) = None"
proof (induction cs arbitrary: i k s)
  case Nil
  then show ?case by simp
next
  case (Cons c cs)
  obtain h s1 where g: "getHelper i s = (h, s1)" by (cases "getHelper i s")
  from Cons.prems have c: "1 \<le> nbPoints c" and v: "validCounts cs"
    by (simp_all add: validCounts_def)
  from v have "0 \<le> sum_list (map nbPoints cs)"
    by (intro sum_list_nonneg) (auto simp: validCounts_def)
  with Cons.prems c have k: "k < int (length pts)" by simp
  with Cons.prems obtain p where p: "elemAt pts k = Some p" by (simp add: elemAt_def)
  have "fst (showHelpersLoop pts cs (Suc i) (k + nbPoints c) (setPosition h p s1)) = None"
    using v Cons.prems c by (intro Cons.IH) simp_all
  with g p show ?case by simp
qed

lemma removeLastHelpers_same: "sameData s (snd (removeLastHelpers i s))"
proof (induction i s rule: removeLastHelpers.induct)
  case (1 i s)
  show ?case
  proof (cases "i > int (length (curves s))")
    case False
    then show ?thesis by (simp add: sameData_refl)
  next
    case True
    show ?thesis
    proof (cases "elemAt (helpers s) i")
      case None
      with True show ?thesis by (simp add: sameData_refl)
    next
      case (Some h)
      let ?s1 = "(dispose h s)\<lparr>helpers := take (nat i) (helpers s) @ drop (Suc (nat i)) (helpers s)\<rparr>"
      have "sameData s ?s1" by (simp add: sameData_def dispose_def)
      moreover have "sameData ?s1 (snd (removeLastHelpers (i - 1) ?s1))"
        using True Some by (rule "1.IH")
      ultimately have "sameData s (snd (removeLastHelpers (i - 1) ?s1))"
        by (rule sameData_trans)
      then show ?thesis using True Some by simp
    qed
  qed
qed

lemma removeLastHelpers_wf: "wfPool s \<Longrightarrow> wfPool (snd (removeLastHelpers i s))"
proof (induction i s rule: removeLastHelpers.induct)
  case (1 i s)
  show ?case
  proof (cases "i > int (length (curves s))")
    case False
    with "1.prems" show ?thesis by simp
  next
    case True
    show ?thesis
    proof (cases "elemAt (helpers s) i")
      case None
      with True "1.prems" show ?thesis by simp
    next
      case (Some h)
      let ?s1 = "(dispose h s)\<lparr>helpers := take (nat i) (helpers s) @ drop (Suc (nat i)) (helpers s)\<rparr>"
      have "wfPool ?s1"
        using "1.prems" by (auto simp: wfPool_def dispose_def dest: in_set_takeD in_set_dropD)
      with True Some have "wfPool (snd (removeLastHelpers (i - 1) ?s1))" by (rule "1.IH")
      then show ?thesis using True Some by simp
    qed
  qed
qed

lemma disposeAll_Nil: "disposeAll [] M = M"
  by (simp add: disposeAll_def)

lemma drop_butlast_snoc:
  "n < length xs \<Longrightarrow> drop n xs = drop n (butlast xs) @ [last xs]"
  by (cases xs rule: rev_cases) auto

lemma removeLastHelpers_eq:
  "i = int (length (helpers s)) - 1 \<Longrightarrow>
   removeLastHelpers i s =
     (None, s\<lparr>helpers := take (Suc (length (curves s))) (helpers s),
              meshes := disposeAll (drop (Suc (length (curves s))) (helpers s)) (meshes s)\<rparr>)"
proof (induction i s rule: removeLastHelpers.induct)
  case (1 i s)
  let ?n = "length (curves s)" and ?hs = "helpers s"
  show ?case
  proof (cases "i > int ?n")
    case False
    with "1.prems" have "length ?hs \<le> Suc ?n" by simp
    then have "take (Suc ?n) ?hs = ?hs" "drop (Suc ?n) ?hs = []" by simp_all
    with False show ?thesis by (simp add: disposeAll_Nil)
  next
    case True
    with "1.prems" have len: "Suc ?n < length ?hs" and ne: "?hs \<noteq> []" by auto
    from "1.prems" len have ni: "nat i = length ?hs - 1" by arith
    have "elemAt ?hs i = Some (?hs ! nat i)"
      using "1.prems" len ne by (simp add: elemAt_def)
    also have "?hs ! nat i = last ?hs"
      unfolding ni using ne by (simp add: last_conv_nth)
    finally have el: "elemAt ?hs i = Some (last ?hs)" .
    let ?h = "last ?hs"
    let ?s1 = "(dispose ?h s)\<lparr>helpers := take (nat i) ?hs @ drop (Suc (nat i)) ?hs\<rparr>"
    have h1: "helpers ?s1 = butlast ?hs"
      using len by (simp add: ni butlast_conv_take)
    have c1: "curves ?s1 = curves s" by (simp add: dispose_def)
    have i1: "i - 1 = int (length (helpers ?s1)) - 1"
      using "1.prems" len ne by (simp add: h1)
    have ih: "removeLastHelpers (i - 1) ?s1 =
       (None, ?s1\<lparr>helpers := take (Suc (length (curves ?s1))) (helpers ?s1),
                   meshes := disposeAll (drop (Suc (length (curves ?s1))) (helpers ?s1)) (meshes ?s1)\<rparr>)"
      using True el i1 by (rule "1.IH")
    have t: "take (Suc ?n) (butlast ?hs) = take (Suc ?n) ?hs"
      using len by (simp add: take_butlast)
    have d: "drop (Suc ?n) ?hs = drop (Suc ?n) (butlast ?hs) @ [?h]"
      using len by (intro drop_butlast_snoc) simp
    have m: "disposeAll (drop (Suc ?n) (butlast ?hs)) (meshes ?s1) =
             disposeAll (drop (Suc ?n) ?hs) (meshes s)"
      unfolding d by (rule ext) (simp add: disposeAll_def dispose_def)
    have "removeLastHelpers i s = removeLastHelpers (i - 1) ?s1"
      using True el by simp
    also have "\<dots> = (None, s\<lparr>helpers := take (Suc ?n) ?hs,
                              meshes := disposeAll (drop (Suc ?n) ?hs) (meshes s)\<rparr>)"
      unfolding ih h1 c1 t m by (simp add: dispose_def)
    finally show ?thesis .
  qed
qed

lemma updateCurve_refs: "controlRefs (snd (updateCurve H c)) = controlRefs c"
  by (simp add: updateCurve_def controlRefs_def split: sum.splits)

lemma buildCurvesLoop_refs: "map controlRefs (snd (buildCurvesLoop H cs)) = map controlRefs cs"
proof (induction cs)
  case Nil
  show ?case by simp
next
  case (Cons c cs)
  obtain r c' where u: "updateCurve H c = (r, c')" by (cases "updateCurve H c")
  have c': "controlRefs c' = controlRefs c" using updateCurve_refs [of H c] u by simp
  show ?case
  proof (cases r)
    case None
    with u c' Cons.IH show ?thesis by (cases "buildCurvesLoop H cs") simp
  next
    case (Some e)
    with u c' show ?thesis by simp
  qed
qed

lemma buildCurves_snd:
  "snd (buildCurves s) = s\<lparr>curves := snd (buildCurvesLoop (vectors s) (curves s))\<rparr>"
  by (cases "buildCurvesLoop (vectors s) (curves s)") (simp add: buildCurves_def)

lemma getFinalCurvePoints_snd: "snd (getFinalCurvePoints s) = snd (buildCurves s)"
  by (cases "buildCurves s"; cases "fst (buildCurves s)")
     (simp_all add: getFinalCurvePoints_def)

lemma getFinalCurvePoints_fields:
  "map controlRefs (curves (snd (getFinalCurvePoints s))) = map controlRefs (curves s)"
  "vectors (snd (getFinalCurvePoints s)) = vectors s"
  "geometry (snd (getFinalCurvePoints s)) = geometry s"
  "isVisible (snd (getFinalCurvePoints s)) = isVisible s"
  "color (snd (getFinalCurvePoints s)) = color s"
  "helpers (snd (getFinalCurvePoints s)) = helpers s"
  "helperRef (snd (getFinalCurvePoints s)) = helperRef s"
  "meshes (snd (getFinalCurvePoints s)) = meshes s"
  "nextMesh (snd (getFinalCurvePoints s)) = nextMesh s"
  by (simp_all add: getFinalCurvePoints_snd buildCurves_snd buildCurvesLoop_refs)

lemma showHelpers_sameData: "sameData (snd (getFinalCurvePoints s)) (snd (showHelpers s))"
proof -
  obtain r s1 where g: "getFinalCurvePoints s = (r, s1)" by (cases "getFinalCurvePoints s")
  show ?thesis
  proof (cases r)
    case (Inl e)
    with g show ?thesis by (simp add: showHelpers_def sameData_refl)
  next
    case (Inr pts)
    obtain r2 s2 where l: "showHelpersLoop pts (curves s1) 0 0 s1 = (r2, s2)"
      by (cases "showHelpersLoop pts (curves s1) 0 0 s1")
    have s2: "sameData s1 s2" using showHelpersLoop_same [of s1 pts "curves s1" 0 0] l by simp
    show ?thesis
    proof (cases r2)
      case (Some e)
      with g Inr l s2 show ?thesis by (simp add: showHelpers_def)
    next
      case None
      obtain h s3 where gh: "getHelper (length (curves s2)) s2 = (h, s3)"
        by (cases "getHelper (length (curves s2)) s2")
      have s3: "sameData s1 s3"
        using getHelper_same [of s2 "length (curves s2)"] gh s2 by (simp add: sameData_trans)
      show ?thesis
      proof (cases "elemAt pts (int (length pts) - 1)")
        case None
        with g Inr l \<open>r2 = None\<close> gh s3 show ?thesis by (simp add: showHelpers_def)
      next
        case (Some p)
        have "sameData s1 (setPosition h p s3)"
          using s3 setPosition_same by (rule sameData_trans)
        then have "sameData s1 (snd (removeLastHelpers (int (length (helpers s3)) - 1)
                                        (setPosition h p s3)))"
          using removeLastHelpers_same by (rule sameData_trans)
        with g Inr l \<open>r2 = None\<close> gh Some show ?thesis by (simp add: showHelpers_def)
      qed
    qed
  qed
qed

lemma showHelpers_fields:
  "map controlRefs (curves (snd (showHelpers s))) = map controlRefs (curves s)"
  "vectors (snd (showHelpers s)) = vectors s"
  "geometry (snd (showHelpers s)) = geometry s"
  "isVisible (snd (showHelpers s)) = isVisible s"
  "color (snd (showHelpers s)) = color s"
  using showHelpers_sameData [of s] by (simp_all add: sameData_def getFinalCurvePoints_fields)

lemma showHelpers_wf: "wfPool s \<Longrightarrow> wfPool (snd (showHelpers s))"
proof -
  assume wf: "wfPool s"
  obtain r s1 where g: "getFinalCurvePoints s = (r, s1)" by (cases "getFinalCurvePoints s")
  have s1: "wfPool s1"
    using wf getFinalCurvePoints_fields(6,9) [of s] g by (simp add: wfPool_def)
  show ?thesis
  proof (cases r)
    case (Inl e)
    with g s1 show ?thesis by (simp add: showHelpers_def)
  next
    case (Inr pts)
    obtain r2 s2 where l: "showHelpersLoop pts (curves s1) 0 0 s1 = (r2, s2)"
      by (cases "showHelpersLoop pts (curves s1) 0 0 s1")
    have s2: "wfPool s2" using showHelpersLoop_wf [OF s1, of pts "curves s1" 0 0] l by simp
    show ?thesis
    proof (cases r2)
      case (Some e)
      with g Inr l s2 show ?thesis by (simp add: showHelpers_def)
    next
      case None
      obtain h s3 where gh: "getHelper (length (curves s2)) s2 = (h, s3)"
        by (cases "getHelper (length (curves s2)) s2")
      have s3: "wfPool s3"
        using getHelper_wf [OF s2, of "length (curves s2)"] gh by simp
      show ?thesis
      proof (cases "elemAt pts (int (length pts) - 1)")
        case None
        with g Inr l \<open>r2 = None\<close> gh s3 show ?thesis by (simp add: showHelpers_def)
      next
        case (Some p)
        have "wfPool (setPosition h p s3)" using s3 by (rule setPosition_wf)
        then have "wfPool (snd (removeLastHelpers (int (length (helpers s3)) - 1)
                                        (setPosition h p s3)))"
          by (rule removeLastHelpers_wf)
        with g Inr l \<open>r2 = None\<close> gh Some show ?thesis by (simp add: showHelpers_def)
      qed
    qed
  qed
qed

section \<open>The default path\<close>

lemma upt_11: "[0 ..< 11] = [0,1,2,3,4,5,6,7,8,9,10::nat]"
  by (simp add: upt_rec)

lemma defaultCurves_valid: "validCounts defaultCurves"
  by (simp add: validCounts_def defaultCurves_def)

lemma rebuilt_fields:
  "nbPoints (rebuilt H c) = nbPoints c" "v0 (rebuilt H c) = v0 c" "v1 (rebuilt H c) = v1 c"
  "v2 (rebuilt H c) = v2 c" "v3 (rebuilt H c) = v3 c"
  by (simp_all add: rebuilt_def)

lemma samplesOf_rebuilt: "samplesOf H (rebuilt H' c) = samplesOf H c"
  by (simp add: samplesOf_def rebuilt_fields)

lemma rebuilt_rebuilt: "rebuilt H (rebuilt H' c) = rebuilt H c"
  by (simp add: rebuilt_def samplesOf_def)

lemma validCounts_rebuilt: "validCounts (map (rebuilt H) cs) = validCounts cs"
  by (simp add: validCounts_def rebuilt_fields)

lemma constructor_eq: "constructor = (None, builtDefault)"
  by (simp add: constructor_def hide_def hideHelpers_def initialFields_def buildCurves_valid
      defaultCurves_valid updateCurveGeometry_def private_updateCurveGeometry_def
      getFinalCurvePoints_valid validCounts_rebuilt builtDefault_def rebuilt_rebuilt
      samplesOf_rebuilt comp_def)

lemma defaultSamples:
  "samplesOf defaultVectors (defaultCurves ! 0) =
     [Vector3 0 0 0, Vector3 (649 / 1000) (53 / 80) (- (59 / 400)),
       Vector3 (139 / 125) (29 / 25) (- (7 / 25)),
       Vector3 (1413 / 1000) (603 / 400) (- (153 / 400)),
       Vector3 (197 / 125) (43 / 25) (- (11 / 25)),
       Vector3 (13 / 8) (29 / 16) (- (7 / 16)),
       Vector3 (198 / 125) (9 / 5) (- (9 / 25)),
       Vector3 (1477 / 1000) (679 / 400) (- (77 / 400)),
       Vector3 (166 / 125) (38 / 25) (2 / 25),
       Vector3 (1161 / 1000) (513 / 400) (189 / 400), Vector3 1 1 1]"
  "samplesOf defaultVectors (defaultCurves ! Suc 0) =
      [Vector3 1 1 1, Vector3 (1377 / 1000) (2787 / 2000) (1161 / 2000),
       Vector3 (202 / 125) (211 / 125) (28 / 125),
       Vector3 (1729 / 1000) (3809 / 2000) (- (133 / 2000)),
       Vector3 (216 / 125) (258 / 125) (- (36 / 125)),
       Vector3 (13 / 8) (35 / 16) (- (7 / 16)),
       Vector3 (179 / 125) (287 / 125) (- (64 / 125)),
       Vector3 (1161 / 1000) (4821 / 2000) (- (1017 / 2000)),
       Vector3 (103 / 125) (319 / 125) (- (53 / 125)),
       Vector3 (433 / 1000) (5483 / 2000) (- (511 / 2000)), Vector3 0 3 0]"
  by (simp_all add: samplesOf_def defaultCurves_def defaultVectors_def upt_11 bezierPoint_def
      bezier_def)

lemma defaultPolyline:
  "concat (map (samplesOf defaultVectors) defaultCurves) =
     samplesOf defaultVectors (defaultCurves ! 0)
       @ samplesOf defaultVectors (defaultCurves ! Suc 0)"
  by (simp add: defaultCurves_def)

lemma show_default:
  "show builtDefault =
     (None, builtDefault\<lparr>isVisible := True, helpers := [0, 1, 2], helperRef := Some 0,
        nextMesh := 3,
        meshes := (\<lambda>_. newMesh)
          (0 := \<lparr>position = Vector3 0 0 0, disposed = False, onDrag = Some 0\<rparr>,
           1 := \<lparr>position = Vector3 1 1 1, disposed = False, onDrag = Some 1\<rparr>,
           2 := \<lparr>position = Vector3 0 3 0, disposed = False, onDrag = Some 2\<rparr>)\<rparr>)"
  by (simp add: show_def showHelpers_def getFinalCurvePoints_def buildCurves_def
      updateCurve_def sample_def upt_11 bezierPoint_def bezier_def getHelper_def Let_def
      setPosition_def elemAt_def builtDefault_def initialFields_def defaultCurves_def
      defaultVectors_def rebuilt_def samplesOf_def newMesh_def removeLastHelpers_eq
      disposeAll_Nil numeral_2_eq_2
      del: removeLastHelpers.simps)

lemma shownDefault_eq:
  "shownDefault =
     builtDefault\<lparr>isVisible := True, helpers := [0, 1, 2], helperRef := Some 0,
        nextMesh := 3,
        meshes := (\<lambda>_. newMesh)
          (0 := \<lparr>position = Vector3 0 0 0, disposed = False, onDrag = Some 0\<rparr>,
           1 := \<lparr>position = Vector3 1 1 1, disposed = False, onDrag = Some 1\<rparr>,
           2 := \<lparr>position = Vector3 0 3 0, disposed = False, onDrag = Some 2\<rparr>)\<rparr>"
  by (simp add: shownDefault_def constructor_eq show_default)

lemma shownDefault_fields:
  "validCounts (curves shownDefault)" "curves shownDefault \<noteq> []" "wfPool shownDefault"
  "isVisible shownDefault" "length (curves shownDefault) = 2" "helpers shownDefault = [0, 1, 2]"
  by (simp_all add: shownDefault_eq builtDefault_def initialFields_def validCounts_rebuilt
      defaultCurves_valid wfPool_def) (simp_all add: defaultCurves_def)

lemma shownDefault_curves:
  "curves shownDefault = map (rebuilt defaultVectors) defaultCurves"
  "vectors shownDefault = defaultVectors"
  by (simp_all add: shownDefault_eq builtDefault_def initialFields_def)

section \<open>Showing the helpers\<close>

lemma polyline_length:
  "validCounts cs \<Longrightarrow>
   int (length (concat (map (samplesOf H) cs))) = sum_list (map nbPoints cs) + int (length cs)"
  by (induction cs) (simp_all add: validCounts_def samplesOf_length)

lemma polyline_valid:
  "validCounts (curves s) \<Longrightarrow> polyline s = concat (map (samplesOf (vectors s)) (curves s))"
  by (simp add: polyline_def getFinalCurvePoints_valid)

lemma elemAt_last: "xs \<noteq> [] \<Longrightarrow> elemAt xs (int (length xs) - 1) = Some (last xs)"
proof -
  assume ne: "xs \<noteq> []"
  then have n: "nat (int (length xs) - 1) = length xs - 1" by simp
  have "elemAt xs (int (length xs) - 1) = Some (xs ! nat (int (length xs) - 1))"
    using ne by (simp add: elemAt_def)
  also have "xs ! nat (int (length xs) - 1) = last xs"
    unfolding n using ne by (simp add: last_conv_nth)
  finally show ?thesis .
qed

lemma showHelpers_valid:
  assumes v: "validCounts (curves s)" and ne: "curves s \<noteq> []"
    and pts: "pts = concat (map (samplesOf (vectors s)) (curves s))"
    and s1: "s1 = s\<lparr>curves := map (rebuilt (vectors s)) (curves s)\<rparr>"
  shows "\<exists>s2 h s3.
      showHelpersLoop pts (curves s1) 0 0 s1 = (None, s2)
    \<and> getHelper (length (curves s)) s2 = (h, s3)
    \<and> showHelpers s =
        (None, (setPosition h (last pts) s3)
                 \<lparr>helpers := take (Suc (length (curves s))) (helpers s3),
                  meshes := disposeAll (drop (Suc (length (curves s))) (helpers s3))
                                       (meshes (setPosition h (last pts) s3))\<rparr>)"
proof -
  have g: "getFinalCurvePoints s = (Inr pts, s1)"
    unfolding pts s1 using v by (rule getFinalCurvePoints_valid)
  have v1: "validCounts (curves s1)" using v by (simp add: s1 validCounts_rebuilt)
  have nb: "map nbPoints (curves s1) = map nbPoints (curves s)"
    by (simp add: s1 rebuilt_fields comp_def)
  have len: "int (length pts) = sum_list (map nbPoints (curves s)) + int (length (curves s))"
    unfolding pts using v by (rule polyline_length)
  have "fst (showHelpersLoop pts (curves s1) 0 0 s1) = None"
    using v1 len ne by (intro showHelpersLoop_succeeds) (simp_all add: nb)
  then obtain s2 where l: "showHelpersLoop pts (curves s1) 0 0 s1 = (None, s2)"
    by (cases "showHelpersLoop pts (curves s1) 0 0 s1") simp
  have c2: "curves s2 = curves s1"
    using showHelpersLoop_same [of s1 pts "curves s1" 0 0] l by (simp add: sameData_def)
  have n2: "length (curves s2) = length (curves s)" by (simp add: c2 s1)
  obtain h s3 where gh: "getHelper (length (curves s)) s2 = (h, s3)"
    by (cases "getHelper (length (curves s)) s2")
  have c3: "length (curves s3) = length (curves s)"
    using getHelper_same [of s2 "length (curves s)"] gh n2 by (simp add: sameData_def)
  have "0 \<le> sum_list (map nbPoints (curves s))"
    using v by (intro sum_list_nonneg) (auto simp: validCounts_def)
  moreover from ne have "0 < int (length (curves s))" by simp
  ultimately have "0 < int (length pts)" using len by linarith
  then have pne: "pts \<noteq> []" by auto
  have c4: "length (curves (setPosition h (last pts) s3)) = length (curves s)"
    using c3 by (simp add: setPosition_def)
  have "showHelpers s =
      removeLastHelpers (int (length (helpers s3)) - 1) (setPosition h (last pts) s3)"
    using g l gh n2 elemAt_last [OF pne] by (simp add: showHelpers_def)
  also have "\<dots> = (None, (setPosition h (last pts) s3)
                 \<lparr>helpers := take (Suc (length (curves s))) (helpers s3),
                  meshes := disposeAll (drop (Suc (length (curves s))) (helpers s3))
                                       (meshes (setPosition h (last pts) s3))\<rparr>)"
    using removeLastHelpers_eq [of "int (length (helpers s3)) - 1" "setPosition h (last pts) s3"]
    by (simp add: setPosition_fields c4)
  finally show ?thesis using l gh by blast
qed

lemma showHelpers_pool:
  assumes v: "validCounts (curves s)" and ne: "curves s \<noteq> []"
  shows "fst (showHelpers s) = None"
    and "length (helpers (snd (showHelpers s))) = length (curves s) + 1"
    and "curves (snd (showHelpers s)) = map (rebuilt (vectors s)) (curves s)"
    and "\<forall>j. length (curves s) < j \<and> j < length (helpers s) \<longrightarrow>
             disposed (meshes (snd (showHelpers s)) (helpers s ! j))"
proof -
  let ?pts = "concat (map (samplesOf (vectors s)) (curves s))"
  let ?s1 = "s\<lparr>curves := map (rebuilt (vectors s)) (curves s)\<rparr>"
  let ?n = "length (curves s)"
  from showHelpers_valid [OF v ne refl refl] obtain s2 h s3 where
    l: "showHelpersLoop ?pts (curves ?s1) 0 0 ?s1 = (None, s2)"
    and gh: "getHelper ?n s2 = (h, s3)"
    and sh: "showHelpers s =
        (None, (setPosition h (last ?pts) s3)
                 \<lparr>helpers := take (Suc ?n) (helpers s3),
                  meshes := disposeAll (drop (Suc ?n) (helpers s3))
                                       (meshes (setPosition h (last ?pts) s3))\<rparr>)"
    by blast
  from showHelpersLoop_length [OF l]
  have l2: "length (helpers s2) = length (helpers s) + ?n"
    and t2: "take (length (helpers s)) (helpers s2) = helpers s" by simp_all
  have h3: "helpers s3 = helpers s2 @ [h]" using getHelper_helpers [of ?n s2] gh by simp
  have c2: "curves s2 = curves ?s1"
    using showHelpersLoop_same [of ?s1 ?pts "curves ?s1" 0 0] l by (simp add: sameData_def)
  have c3: "curves s3 = curves s2"
    using getHelper_same [of s2 ?n] gh by (simp add: sameData_def)
  show "fst (showHelpers s) = None" by (simp add: sh)
  show "length (helpers (snd (showHelpers s))) = ?n + 1" by (simp add: sh h3 l2)
  show "curves (snd (showHelpers s)) = map (rebuilt (vectors s)) (curves s)"
    by (simp add: sh setPosition_def c3 c2)
  show "\<forall>j. ?n < j \<and> j < length (helpers s) \<longrightarrow>
             disposed (meshes (snd (showHelpers s)) (helpers s ! j))"
  proof (intro allI impI)
    fix j assume j: "?n < j \<and> j < length (helpers s)"
    have "helpers s ! j = take (length (helpers s)) (helpers s2) ! j" by (simp only: t2)
    also have "\<dots> = helpers s2 ! j" using j by simp
    also have "\<dots> = helpers s3 ! j" using j l2 by (simp add: h3 nth_append)
    finally have e: "helpers s ! j = helpers s3 ! j" .
    have j3: "j < length (helpers s3)" using j l2 by (simp add: h3)
    have "helpers s3 ! j = drop (Suc ?n) (helpers s3) ! (j - Suc ?n)"
      using j j3 by simp
    moreover have "j - Suc ?n < length (drop (Suc ?n) (helpers s3))"
      using j j3 by (simp add: diff_less_mono)
    ultimately have "helpers s3 ! j \<in> set (drop (Suc ?n) (helpers s3))"
      by (metis nth_mem)
    then show "disposed (meshes (snd (showHelpers s)) (helpers s ! j))"
      by (simp add: sh e disposeAll_def)
  qed
qed

lemma hide_eq:
  "hide s = s\<lparr>isVisible := False, helpers := [], helperRef := None,
               meshes := disposeAll (helpers s) (meshes s)\<rparr>"
proof -
  have f: "fold dispose hs t = t\<lparr>meshes := disposeAll hs (meshes t)\<rparr>" for hs t
  proof (induction hs arbitrary: t)
    case Nil
    show ?case by (simp add: disposeAll_Nil)
  next
    case (Cons h hs)
    have "disposeAll hs (meshes (dispose h t)) = disposeAll (h # hs) (meshes t)"
      by (rule ext) (simp add: disposeAll_def dispose_def)
    then show ?case by (simp add: Cons.IH) (simp add: dispose_def)
  qed
  show ?thesis by (simp add: hide_def hideHelpers_def f)
qed

lemma builtDefault_polyline:
  "polyline (builtDefault\<lparr>isVisible := True, helpers := hs, helperRef := r, nextMesh := k,
                          meshes := M\<rparr>) =
     samplesOf defaultVectors (defaultCurves ! 0)
       @ samplesOf defaultVectors (defaultCurves ! Suc 0)"
  by (simp add: polyline_valid builtDefault_def initialFields_def validCounts_rebuilt
      defaultCurves_valid samplesOf_rebuilt comp_def defaultPolyline)

text \<open>
  Claim C2, as the code has it.  For the default path of 2 segments with 10 samples per
  segment, \<open>show()\<close> on the newly constructed mesh returns normally and leaves exactly 3
  helpers in the pool; the combined polyline has 22 points (11 per segment, the joint
  twice); the helpers are positioned at the polyline points of index 0, 10 and 21, the
  last one being \<open>points[points.length - 1]\<close>.
\<close>

theorem default_show_handles:
  "fst (show (snd constructor)) = None
   \<and> helpers (snd (show (snd constructor))) = [0, 1, 2]
   \<and> length (polyline (snd (show (snd constructor)))) = 22
   \<and> position (meshes (snd (show (snd constructor))) 0)
        = polyline (snd (show (snd constructor))) ! 0
   \<and> position (meshes (snd (show (snd constructor))) 1)
        = polyline (snd (show (snd constructor))) ! 10
   \<and> position (meshes (snd (show (snd constructor))) 2)
        = polyline (snd (show (snd constructor))) ! 21"
  by (simp add: constructor_eq show_default builtDefault_polyline defaultSamples)

text \<open>
  Claim C2 as stated fails on the default path: the combined polyline does not have 21
  points, and the third helper is not at the polyline point of index 20.
\<close>

theorem default_show_counterexample:
  "length (polyline (snd (show (snd constructor)))) \<noteq> 21
   \<and> position (meshes (snd (show (snd constructor)))
                 (helpers (snd (show (snd constructor))) ! 2))
        \<noteq> polyline (snd (show (snd constructor))) ! 20"
  by (simp add: constructor_eq show_default builtDefault_polyline defaultSamples)

lemma private_updateCurveGeometry_valid:
  "validCounts (curves s) \<Longrightarrow>
   private_updateCurveGeometry b s =
     (let pts = concat (map (samplesOf (vectors s)) (curves s));
          s2 = s\<lparr>curves := map (rebuilt (vectors s)) (curves s),
                 geometry := Some (pts, map (\<lambda>_. Color4 (cr (color s)) (cg (color s))
                                                        (cb (color s)) 1) pts)\<rparr>
      in if b \<and> isVisible s then showHelpers s2 else (None, s2))"
  by (simp add: private_updateCurveGeometry_def getFinalCurvePoints_valid Let_def)

lemma pool_size_ops:
  assumes v: "validCounts (curves s)" and ne: "curves s \<noteq> []"
  shows "helpers (hide s) = []
       \<and> fst (show s) = None
       \<and> length (helpers (snd (show s))) = length (curves (snd (show s))) + 1
       \<and> (isVisible s \<and> 1 < length (curves s) \<and> i < length (curves s) \<longrightarrow>
            fst (handleCurveNodeContextMenu i s) = None
          \<and> length (curves (snd (handleCurveNodeContextMenu i s))) = length (curves s) - 1
          \<and> length (helpers (snd (handleCurveNodeContextMenu i s)))
               = length (curves (snd (handleCurveNodeContextMenu i s))) + 1
          \<and> (\<forall>j. length (curves s) - 1 < j \<and> j < length (helpers s) \<longrightarrow>
                 disposed (meshes (snd (handleCurveNodeContextMenu i s)) (helpers s ! j))))"
proof -
  have hd: "helpers (hide s) = []" by (simp add: hide_eq)
  let ?sv = "s\<lparr>isVisible := True\<rparr>"
  have vv: "validCounts (curves ?sv)" "curves ?sv \<noteq> []" using v ne by simp_all
  have sh: "fst (show s) = None"
    "length (helpers (snd (show s))) = length (curves (snd (show s))) + 1"
    using showHelpers_pool(1,2,3) [OF vv] by (simp_all add: show_def)
  have rm: "fst (handleCurveNodeContextMenu i s) = None
          \<and> length (curves (snd (handleCurveNodeContextMenu i s))) = length (curves s) - 1
          \<and> length (helpers (snd (handleCurveNodeContextMenu i s)))
               = length (curves (snd (handleCurveNodeContextMenu i s))) + 1
          \<and> (\<forall>j. length (curves s) - 1 < j \<and> j < length (helpers s) \<longrightarrow>
                 disposed (meshes (snd (handleCurveNodeContextMenu i s)) (helpers s ! j)))"
    if vis: "isVisible s" and n: "1 < length (curves s)" and i: "i < length (curves s)"
  proof -
    let ?cs = "take i (curves s) @ drop (Suc i) (curves s)"
    let ?t = "s\<lparr>curves := ?cs\<rparr>"
    have lc: "length ?cs = length (curves s) - 1" using i by simp
    have vt: "validCounts (curves ?t)"
      using v by (auto simp: validCounts_def dest: in_set_takeD in_set_dropD)
    let ?pts = "concat (map (samplesOf (vectors ?t)) (curves ?t))"
    let ?t2 = "?t\<lparr>curves := map (rebuilt (vectors ?t)) (curves ?t),
                 geometry := Some (?pts, map (\<lambda>_. Color4 (cr (color ?t)) (cg (color ?t))
                                                        (cb (color ?t)) 1) ?pts)\<rparr>"
    have e: "handleCurveNodeContextMenu i s = showHelpers ?t2"
      using n vis private_updateCurveGeometry_valid [OF vt, of True]
      by (simp add: handleCurveNodeContextMenu_def updateCurveGeometry_def Let_def)
    have c2: "curves ?t2 = map (rebuilt (vectors s)) ?cs" by simp
    have v2: "validCounts (curves ?t2)"
      unfolding c2 validCounts_rebuilt using vt by simp
    have n2: "curves ?t2 \<noteq> []" using n lc by auto
    have l2: "length (curves ?t2) = length (curves s) - 1" using lc by simp
    have h2: "helpers ?t2 = helpers s" by simp
    from showHelpers_pool [OF v2 n2] l2 h2
    show ?thesis unfolding e by simp
  qed
  from hd sh rm show ?thesis by blast
qed

section \<open>Hiding and showing again\<close>

lemma getHelper_alive: "alivePool s \<Longrightarrow> alivePool (snd (getHelper i s))"
  by (cases "i < length (helpers s)")
     (auto simp: alivePool_def getHelper_def Let_def newMesh_def)

lemma setPosition_alive: "alivePool s \<Longrightarrow> alivePool (setPosition h p s)"
  by (simp add: alivePool_def setPosition_def)

lemma showHelpersLoop_alive:
  "alivePool s \<Longrightarrow> alivePool (snd (showHelpersLoop pts cs i k s))"
proof (induction cs arbitrary: i k s)
  case Nil
  then show ?case by simp
next
  case (Cons c cs)
  obtain h s1 where g: "getHelper i s = (h, s1)" by (cases "getHelper i s")
  have s1: "alivePool s1" using getHelper_alive [OF Cons.prems, of i] g by simp
  show ?case
  proof (cases "elemAt pts k")
    case None
    with g s1 show ?thesis by simp
  next
    case (Some p)
    have "alivePool (setPosition h p s1)" using s1 by (rule setPosition_alive)
    then have "alivePool (snd (showHelpersLoop pts cs (Suc i) (k + nbPoints c) (setPosition h p s1)))"
      by (rule Cons.IH)
    then show ?thesis using g Some by simp
  qed
qed

lemma showHelpersLoop_fresh:
  "length (helpers s) = i \<Longrightarrow> showHelpersLoop pts cs i k s = (None, s') \<Longrightarrow>
   helpers s' = helpers s @ [nextMesh s ..< nextMesh s + length cs]
   \<and> nextMesh s' = nextMesh s + length cs"
proof (induction cs arbitrary: i k s)
  case Nil
  then show ?case by simp
next
  case (Cons c cs)
  obtain h s1 where g: "getHelper i s = (h, s1)" by (cases "getHelper i s")
  from Cons.prems(1) have "length (helpers s) \<le> i" by simp
  from getHelper_new [OF this] g
  have h: "h = nextMesh s" and n1: "nextMesh s1 = Suc (nextMesh s)" by simp_all
  have h1: "helpers s1 = helpers s @ [nextMesh s]"
    using getHelper_helpers [of i s] g h by simp
  show ?case
  proof (cases "elemAt pts k")
    case None
    with g Cons.prems show ?thesis by simp
  next
    case (Some p)
    let ?t = "setPosition h p s1"
    have l: "showHelpersLoop pts cs (Suc i) (k + nbPoints c) ?t = (None, s')"
      using g Some Cons.prems(2) by simp
    have "length (helpers ?t) = Suc i" using h1 Cons.prems(1) by (simp add: setPosition_fields)
    from Cons.IH [OF this l]
    have "helpers s' = helpers s1 @ [Suc (nextMesh s) ..< Suc (nextMesh s) + length cs]"
      and "nextMesh s' = Suc (nextMesh s) + length cs"
      by (simp_all add: setPosition_fields n1)
    moreover have "[nextMesh s ..< nextMesh s + length (c # cs)] =
        nextMesh s # [Suc (nextMesh s) ..< Suc (nextMesh s) + length cs]"
      using upt_conv_Cons [of "nextMesh s" "nextMesh s + length (c # cs)"] by simp
    ultimately show ?thesis unfolding h1 by simp
  qed
qed

lemma samplesOf_refs:
  "controlRefs c' = controlRefs c \<Longrightarrow> samplesOf H c' = samplesOf H c"
  by (simp add: controlRefs_def samplesOf_def)

lemma map_samplesOf_refs:
  "map controlRefs cs' = map controlRefs cs \<Longrightarrow>
   map (samplesOf H) cs' = map (samplesOf H) cs \<and> validCounts cs' = validCounts cs"
proof (induction cs arbitrary: cs')
  case Nil
  then show ?case by simp
next
  case (Cons c cs)
  then obtain c' cs'' where c: "cs' = c' # cs''" "controlRefs c' = controlRefs c"
    "map controlRefs cs'' = map controlRefs cs" by auto
  from Cons.IH [OF c(3)] samplesOf_refs [OF c(2), of H] c(2)
  show ?case by (simp add: c(1) validCounts_def controlRefs_def)
qed

lemma polyline_refs:
  assumes "map controlRefs (curves s') = map controlRefs (curves s)"
    and "vectors s' = vectors s"
  shows "fst (getFinalCurvePoints s') = fst (getFinalCurvePoints s)"
proof -
  from map_samplesOf_refs [OF assms(1), of "vectors s"]
  have m: "map (samplesOf (vectors s)) (curves s') = map (samplesOf (vectors s)) (curves s)"
    and v: "validCounts (curves s') = validCounts (curves s)" by simp_all
  show ?thesis
  proof (cases "validCounts (curves s)")
    case True
    with v have "validCounts (curves s')" by simp
    from getFinalCurvePoints_valid [OF this] getFinalCurvePoints_valid [OF True]
    show ?thesis by (simp add: assms(2) m)
  next
    case False
    with v have "\<not> validCounts (curves s')" by simp
    from getFinalCurvePoints_invalid [OF this] getFinalCurvePoints_invalid [OF False]
    show ?thesis by simp
  qed
qed

text \<open>
  Claim C9.  For every state with at least one segment, valid sample counts and a pool of
  allocated helpers: \<open>hide()\<close> empties the pool, clears \<open>_helperRef\<close> and disposes every
  helper that was in it; the following \<open>show()\<close> returns normally; afterwards the vector
  store, every segment's control point references and sample count, the vertex data given
  to the renderer and the combined polyline are what they were before \<open>hide()\<close>; and the
  pool holds segment count + 1 helpers that are pairwise distinct, not disposed, and all
  different from the helpers that \<open>hide()\<close> disposed.
\<close>

theorem hide_show_roundtrip:
  assumes wf: "wfPool s" and v: "validCounts (curves s)" and ne: "curves s \<noteq> []"
  shows "helpers (hide s) = [] \<and> helperRef (hide s) = None
       \<and> (\<forall>h \<in> set (helpers s). disposed (meshes (hide s) h))
       \<and> fst (show (hide s)) = None
       \<and> vectors (snd (show (hide s))) = vectors s
       \<and> map controlRefs (curves (snd (show (hide s)))) = map controlRefs (curves s)
       \<and> geometry (snd (show (hide s))) = geometry s
       \<and> polyline (snd (show (hide s))) = polyline s
       \<and> length (helpers (snd (show (hide s)))) = length (curves s) + 1
       \<and> distinct (helpers (snd (show (hide s))))
       \<and> set (helpers (snd (show (hide s)))) \<inter> set (helpers s) = {}
       \<and> (\<forall>h \<in> set (helpers (snd (show (hide s)))). \<not> disposed (meshes (snd (show (hide s))) h))"
proof -
  let ?t = "(hide s)\<lparr>isVisible := True\<rparr>"
  let ?n = "length (curves s)" and ?nm = "nextMesh s"
  have sh: "show (hide s) = showHelpers ?t" by (simp add: show_def)
  have t: "curves ?t = curves s" "vectors ?t = vectors s" "geometry ?t = geometry s"
    "helpers ?t = []" "nextMesh ?t = ?nm"
    by (simp_all add: hide_eq)
  have vt: "validCounts (curves ?t)" and nt: "curves ?t \<noteq> []" using v ne t by simp_all
  let ?pts = "concat (map (samplesOf (vectors ?t)) (curves ?t))"
  let ?s1 = "?t\<lparr>curves := map (rebuilt (vectors ?t)) (curves ?t)\<rparr>"
  from showHelpers_valid [OF vt nt refl refl] obtain s2 h s3 where
    l: "showHelpersLoop ?pts (curves ?s1) 0 0 ?s1 = (None, s2)"
    and gh: "getHelper (length (curves ?t)) s2 = (h, s3)"
    and e: "showHelpers ?t =
        (None, (setPosition h (last ?pts) s3)
                 \<lparr>helpers := take (Suc (length (curves ?t))) (helpers s3),
                  meshes := disposeAll (drop (Suc (length (curves ?t))) (helpers s3))
                                       (meshes (setPosition h (last ?pts) s3))\<rparr>)"
    by blast
  have h1: "helpers ?s1 = []" "nextMesh ?s1 = ?nm" "length (curves ?s1) = ?n"
    by (simp_all add: hide_eq)
  from showHelpersLoop_fresh [OF _ l] h1
  have h2: "helpers s2 = [?nm ..< ?nm + ?n]" and n2: "nextMesh s2 = ?nm + ?n" by simp_all
  have a1: "alivePool ?s1" by (simp add: alivePool_def hide_eq)
  have a2: "alivePool s2" using showHelpersLoop_alive [OF a1, of ?pts "curves ?s1" 0 0] l by simp
  have a3: "alivePool s3" using getHelper_alive [OF a2, of "length (curves ?t)"] gh by simp
  have "length (helpers s2) \<le> length (curves ?t)" by (simp add: h2 t)
  from getHelper_new [OF this] gh n2 have hh: "h = ?nm + ?n" by simp
  have h3: "helpers s3 = [?nm ..< ?nm + ?n + 1]"
    using getHelper_helpers [of "length (curves ?t)" s2] gh hh h2 by simp
  have len: "length (helpers s3) = ?n + 1" by (simp add: h3)
  have tk: "take (Suc (length (curves ?t))) (helpers s3) = helpers s3"
    "drop (Suc (length (curves ?t))) (helpers s3) = []"
    using len by (simp_all add: t)
  let ?f = "snd (show (hide s))"
  have fh: "helpers ?f = [?nm ..< ?nm + ?n + 1]"
    unfolding sh e tk by (simp add: h3)
  have fm: "meshes ?f = meshes (setPosition h (last ?pts) s3)"
    unfolding sh e tk by (simp add: disposeAll_Nil)
  have c1: "helpers (hide s) = [] \<and> helperRef (hide s) = None
       \<and> (\<forall>h \<in> set (helpers s). disposed (meshes (hide s) h))"
    by (simp add: hide_eq disposeAll_def)
  have c2: "fst (show (hide s)) = None" by (simp add: sh e)
  have c3: "vectors ?f = vectors s" "map controlRefs (curves ?f) = map controlRefs (curves s)"
    "geometry ?f = geometry s"
    using showHelpers_fields(1,2,3) [of ?t] by (simp_all add: sh t)
  have c4: "polyline ?f = polyline s"
    using polyline_refs [OF c3(2) c3(1)] by (simp add: polyline_def)
  have c5: "length (helpers ?f) = ?n + 1" "distinct (helpers ?f)" by (simp_all add: fh)
  have c6: "set (helpers ?f) \<inter> set (helpers s) = {}"
    using wf by (auto simp: fh wfPool_def)
  have c7: "\<forall>h \<in> set (helpers ?f). \<not> disposed (meshes ?f h)"
    using setPosition_alive [OF a3, of h "last ?pts"]
    by (simp add: alivePool_def fh fm h3 setPosition_fields)
  from c1 c2 c3 c4 c5 c6 c7 show ?thesis by blast
qed

theorem hide_show_roundtrip_witness:
  "wfPool shownDefault \<and> validCounts (curves shownDefault) \<and> curves shownDefault \<noteq> []
   \<and> helpers (hide shownDefault) = []
   \<and> disposed (meshes (hide shownDefault) 0) \<and> disposed (meshes (hide shownDefault) 1)
   \<and> disposed (meshes (hide shownDefault) 2)
   \<and> fst (show (hide shownDefault)) = None
   \<and> geometry (snd (show (hide shownDefault))) = geometry shownDefault
   \<and> length (helpers (snd (show (hide shownDefault)))) = 3
   \<and> set (helpers (snd (show (hide shownDefault)))) \<inter> {0, 1, 2} = {}"
  using hide_show_roundtrip [OF shownDefault_fields(3,1,2)]
  by (simp add: shownDefault_fields)

section \<open>Properties of the drag callback\<close>

lemma private_updateCurveGeometry_fields:
  "map controlRefs (curves (snd (private_updateCurveGeometry b s))) = map controlRefs (curves s)"
  "vectors (snd (private_updateCurveGeometry b s)) = vectors s"
  "isVisible (snd (private_updateCurveGeometry b s)) = isVisible s"
  "color (snd (private_updateCurveGeometry b s)) = color s"
proof -
  obtain r s1 where g: "getFinalCurvePoints s = (r, s1)" by (cases "getFinalCurvePoints s")
  have f: "map controlRefs (curves s1) = map controlRefs (curves s)" "vectors s1 = vectors s"
    "isVisible s1 = isVisible s" "color s1 = color s"
    using getFinalCurvePoints_fields [of s] g by simp_all
  have "map controlRefs (curves (snd (private_updateCurveGeometry b s))) = map controlRefs (curves s)
      \<and> vectors (snd (private_updateCurveGeometry b s)) = vectors s
      \<and> isVisible (snd (private_updateCurveGeometry b s)) = isVisible s
      \<and> color (snd (private_updateCurveGeometry b s)) = color s"
  proof (cases r)
    case (Inl e)
    with g f show ?thesis by (simp add: private_updateCurveGeometry_def)
  next
    case (Inr pts)
    with g f show ?thesis
      by (simp add: private_updateCurveGeometry_def Let_def showHelpers_fields)
  qed
  then show
    "map controlRefs (curves (snd (private_updateCurveGeometry b s))) = map controlRefs (curves s)"
    "vectors (snd (private_updateCurveGeometry b s)) = vectors s"
    "isVisible (snd (private_updateCurveGeometry b s)) = isVisible s"
    "color (snd (private_updateCurveGeometry b s)) = color s"
    by simp_all
qed

lemma private_updateCurveGeometry_False:
  "helpers (snd (private_updateCurveGeometry False s)) = helpers s"
  "meshes (snd (private_updateCurveGeometry False s)) = meshes s"
  "helperRef (snd (private_updateCurveGeometry False s)) = helperRef s"
  "nextMesh (snd (private_updateCurveGeometry False s)) = nextMesh s"
proof -
  obtain r s1 where g: "getFinalCurvePoints s = (r, s1)" by (cases "getFinalCurvePoints s")
  have f: "helpers s1 = helpers s" "meshes s1 = meshes s" "helperRef s1 = helperRef s"
    "nextMesh s1 = nextMesh s"
    using getFinalCurvePoints_fields [of s] g by simp_all
  have "helpers (snd (private_updateCurveGeometry False s)) = helpers s
      \<and> meshes (snd (private_updateCurveGeometry False s)) = meshes s
      \<and> helperRef (snd (private_updateCurveGeometry False s)) = helperRef s
      \<and> nextMesh (snd (private_updateCurveGeometry False s)) = nextMesh s"
    using g f by (cases r) (simp_all add: private_updateCurveGeometry_def Let_def)
  then show "helpers (snd (private_updateCurveGeometry False s)) = helpers s"
    "meshes (snd (private_updateCurveGeometry False s)) = meshes s"
    "helperRef (snd (private_updateCurveGeometry False s)) = helperRef s"
    "nextMesh (snd (private_updateCurveGeometry False s)) = nextMesh s"
    by simp_all
qed

text \<open>The state in which the callback leaves the control points, before the rebuild.\<close>

lemma helperCallback_eq:
  assumes ne: "curves s \<noteq> []" and i: "index \<le> length (curves s)"
  shows "helperCallback index helper s =
     private_updateCurveGeometry False
       (s\<lparr>vectors :=
            (if index = length (curves s)
             then (vectors s)(v3 (curves s ! (index - 1)) := position (meshes s helper))
             else if 0 < index
             then (vectors s)(v0 (curves s ! index) := position (meshes s helper),
                              v3 (curves s ! (index - 1)) := position (meshes s helper))
             else (vectors s)(v0 (curves s ! index) := position (meshes s helper)))\<rparr>)"
  using ne i by (simp add: helperCallback_def Let_def copyFrom_def)

section \<open>A path of three segments\<close>

lemma upt_5: "[0 ..< 5] = [0,1,2,3,4::nat]"
  by (simp add: upt_rec)

lemma threeSegments_valid: "validCounts (curves threeSegments)" "curves threeSegments \<noteq> []"
  by (simp_all add: threeSegments_def validCounts_def)

lemma show_three:
  "fst (show threeSegments) = None"
  "helpers (snd (show threeSegments)) = [0, 1, 2, 3]"
  "position (meshes (snd (show threeSegments)) 2) = Vector3 1 (317 / 128) (- (61 / 128))"
  "onDrag (meshes (snd (show threeSegments)) (Suc 0)) = Some (Suc 0)"
  "map controlRefs (curves (snd (show threeSegments))) = map controlRefs (curves threeSegments)"
  "vectors (snd (show threeSegments)) = vectors threeSegments"
  by (simp_all add: show_def showHelpers_def getFinalCurvePoints_def buildCurves_def
      updateCurve_def sample_def upt_5 bezierPoint_def bezier_def getHelper_def Let_def
      setPosition_def elemAt_def threeSegments_def initialFields_def
      defaultVectors_def newMesh_def removeLastHelpers_eq controlRefs_def
      disposeAll_Nil numeral_2_eq_2 numeral_3_eq_3
      del: removeLastHelpers.simps)

lemma draggedThree_eq:
  "draggedThree =
     snd (helperCallback (Suc 0) (Suc 0)
            (setPosition (Suc 0) (Vector3 5 5 5) (snd (show threeSegments))))"
  by (simp add: draggedThree_def dragHelper_def show_three(4))

lemma draggedThree_fields:
  "helpers draggedThree = [0, 1, 2, 3]"
  "position (meshes draggedThree 2) = Vector3 1 (317 / 128) (- (61 / 128))"
  "map controlRefs (curves draggedThree) = map controlRefs (curves threeSegments)"
  "vectors draggedThree = (vectors threeSegments)(4 := Vector3 5 5 5, 3 := Vector3 5 5 5)"
proof -
  let ?S = "snd (show threeSegments)"
  let ?T = "setPosition (Suc 0) (Vector3 5 5 5) ?S"
  have refs: "map controlRefs (curves ?T) = map controlRefs (curves threeSegments)"
    by (simp add: setPosition_def show_three(5))
  then have len: "length (curves ?T) = 3"
    using length_map [of controlRefs "curves ?T"] by (simp add: threeSegments_def)
  have ne: "curves ?T \<noteq> []" and i: "Suc 0 \<le> length (curves ?T)" using len by auto
  have c0: "controlRefs (curves ?T ! 0) = controlRefs (curves threeSegments ! 0)"
    and c1: "controlRefs (curves ?T ! Suc 0) = controlRefs (curves threeSegments ! Suc 0)"
    using refs len by (metis nth_map One_nat_def zero_less_numeral one_less_numeral_iff
        semiring_norm(77) length_map)+
  have a: "v3 (curves ?T ! 0) = 3" "v0 (curves ?T ! Suc 0) = 4"
    using c0 c1 by (simp_all add: controlRefs_def threeSegments_def)
  note e = helperCallback_eq [OF ne i, of "Suc 0"]
  show "helpers draggedThree = [0, 1, 2, 3]"
    unfolding draggedThree_eq e
    by (simp add: private_updateCurveGeometry_False setPosition_fields show_three)
  show "position (meshes draggedThree 2) = Vector3 1 (317 / 128) (- (61 / 128))"
    unfolding draggedThree_eq e
    by (simp add: private_updateCurveGeometry_False) (simp add: setPosition_def show_three)
  show "map controlRefs (curves draggedThree) = map controlRefs (curves threeSegments)"
    unfolding draggedThree_eq e
    by (simp add: private_updateCurveGeometry_fields refs)
  show "vectors draggedThree = (vectors threeSegments)(4 := Vector3 5 5 5, 3 := Vector3 5 5 5)"
    unfolding draggedThree_eq e
    by (simp add: private_updateCurveGeometry_fields len a)
       (simp add: setPosition_def show_three)
qed

section \<open>Dragging a helper\<close>

text \<open>
  Claim C7.  For a path with at least one segment and a callback index (the slot of the
  helper) between 0 and the segment count, the callback leaves every segment's references
  as they were and writes the helper's position, the dragged coordinate, to these vector
  objects and no others: for slot 0 only the first segment's \<open>v0\<close>; for a slot strictly
  between 0 and the segment count, both \<open>v3\<close> of the segment before and \<open>v0\<close> of the
  segment at the slot, which then both hold the dragged position; for the slot equal to
  the segment count only the last segment's \<open>v3\<close>.
\<close>

theorem drag_routes_to_control_points:
  assumes ne: "curves s \<noteq> []" and i: "index \<le> length (curves s)"
  shows "map controlRefs (curves (snd (helperCallback index helper s))) = map controlRefs (curves s)
       \<and> (index = 0 \<longrightarrow>
            vectors (snd (helperCallback index helper s)) =
              (vectors s)(v0 (curves s ! 0) := position (meshes s helper)))
       \<and> (0 < index \<and> index < length (curves s) \<longrightarrow>
            vectors (snd (helperCallback index helper s)) =
              (vectors s)(v0 (curves s ! index) := position (meshes s helper),
                          v3 (curves s ! (index - 1)) := position (meshes s helper))
          \<and> vectors (snd (helperCallback index helper s)) (v3 (curves s ! (index - 1)))
              = position (meshes s helper)
          \<and> vectors (snd (helperCallback index helper s)) (v0 (curves s ! index))
              = position (meshes s helper))
       \<and> (index = length (curves s) \<longrightarrow>
            vectors (snd (helperCallback index helper s)) =
              (vectors s)(v3 (curves s ! (length (curves s) - 1)) := position (meshes s helper)))"
proof -
  have n: "0 < length (curves s)" using ne by simp
  show ?thesis
    unfolding helperCallback_eq [OF ne i]
    using n by (simp add: private_updateCurveGeometry_fields)
qed

theorem drag_routes_to_control_points_witness:
  "curves shownDefault \<noteq> [] \<and> (1::nat) \<le> length (curves shownDefault)
   \<and> 1 < length (curves shownDefault)
   \<and> vectors (snd (helperCallback 1 1 (setPosition 1 (Vector3 5 5 5) shownDefault))) 3
        = Vector3 5 5 5
   \<and> vectors (snd (helperCallback 1 1 (setPosition 1 (Vector3 5 5 5) shownDefault))) 4
        = Vector3 5 5 5
   \<and> vectors (snd (helperCallback 0 0 (setPosition 0 (Vector3 5 5 5) shownDefault)))
        = defaultVectors(0 := Vector3 5 5 5)
   \<and> vectors (snd (helperCallback 2 2 (setPosition 2 (Vector3 5 5 5) shownDefault)))
        = defaultVectors(7 := Vector3 5 5 5)"
proof -
  have f: "curves (setPosition h p shownDefault) = map (rebuilt defaultVectors) defaultCurves"
    "vectors (setPosition h p shownDefault) = defaultVectors"
    "position (meshes (setPosition h p shownDefault) h) = p" for h p
    by (simp_all add: setPosition_def shownDefault_curves)
  have ne: "curves (setPosition h p shownDefault) \<noteq> []" for h p
    by (simp add: f defaultCurves_def)
  have a: "v0 (defaultCurves ! 0) = 0" "v3 (defaultCurves ! 0) = 3"
    "v0 (defaultCurves ! Suc 0) = 4" "v3 (defaultCurves ! Suc 0) = 7"
    "length defaultCurves = 2"
    by (simp_all add: defaultCurves_def)
  have "vectors (snd (helperCallback 1 1 (setPosition 1 (Vector3 5 5 5) shownDefault))) 3
        = Vector3 5 5 5
      \<and> vectors (snd (helperCallback 1 1 (setPosition 1 (Vector3 5 5 5) shownDefault))) 4
        = Vector3 5 5 5"
    using drag_routes_to_control_points [OF ne, of 1 1 "Vector3 5 5 5" 1]
    by (simp add: f a rebuilt_fields)
  moreover have "vectors (snd (helperCallback 0 0 (setPosition 0 (Vector3 5 5 5) shownDefault)))
        = defaultVectors(0 := Vector3 5 5 5)"
    using drag_routes_to_control_points [OF ne, of 0 0 "Vector3 5 5 5" 0]
    by (simp add: f a rebuilt_fields)
  moreover have "vectors (snd (helperCallback 2 2 (setPosition 2 (Vector3 5 5 5) shownDefault)))
        = defaultVectors(7 := Vector3 5 5 5)"
    using drag_routes_to_control_points [OF ne, of 2 2 "Vector3 5 5 5" 2]
    by (simp add: f a rebuilt_fields)
  ultimately show ?thesis by (simp add: shownDefault_fields)
qed

text \<open>
  Claim C8, as the code has it.  For a path with at least one segment, valid sample counts
  and a callback index between 0 and the segment count, the callback returns normally;
  afterwards every segment's cached curve is its sample sequence for the control points as
  they now are (a full rebuild), the vertex data given to the renderer is the combined
  polyline with one colour per point, and the helper pool, every helper mesh (position
  included), \<open>_helperRef\<close> and the allocation counter are exactly what they were: the
  callback calls \<open>_updateCurveGeometry(false)\<close>, which repositions and creates nothing.
\<close>

theorem drag_rebuilds_without_touching_helpers:
  assumes v: "validCounts (curves s)" and ne: "curves s \<noteq> []"
    and i: "index \<le> length (curves s)"
  shows "fst (helperCallback index helper s) = None
       \<and> curves (snd (helperCallback index helper s)) =
           map (rebuilt (vectors (snd (helperCallback index helper s)))) (curves s)
       \<and> geometry (snd (helperCallback index helper s)) =
           Some (polyline (snd (helperCallback index helper s)),
                 map (\<lambda>_. Color4 (cr (color s)) (cg (color s)) (cb (color s)) 1)
                     (polyline (snd (helperCallback index helper s))))
       \<and> helpers (snd (helperCallback index helper s)) = helpers s
       \<and> meshes (snd (helperCallback index helper s)) = meshes s
       \<and> helperRef (snd (helperCallback index helper s)) = helperRef s
       \<and> nextMesh (snd (helperCallback index helper s)) = nextMesh s"
proof -
  let ?w = "s\<lparr>vectors :=
            (if index = length (curves s)
             then (vectors s)(v3 (curves s ! (index - 1)) := position (meshes s helper))
             else if 0 < index
             then (vectors s)(v0 (curves s ! index) := position (meshes s helper),
                              v3 (curves s ! (index - 1)) := position (meshes s helper))
             else (vectors s)(v0 (curves s ! index) := position (meshes s helper)))\<rparr>"
  have e: "helperCallback index helper s = private_updateCurveGeometry False ?w"
    by (rule helperCallback_eq [OF ne i])
  have vw: "validCounts (curves ?w)" using v by simp
  let ?pts = "concat (map (samplesOf (vectors ?w)) (curves ?w))"
  let ?s2 = "?w\<lparr>curves := map (rebuilt (vectors ?w)) (curves ?w),
                 geometry := Some (?pts, map (\<lambda>_. Color4 (cr (color ?w)) (cg (color ?w))
                                                        (cb (color ?w)) 1) ?pts)\<rparr>"
  have r: "helperCallback index helper s = (None, ?s2)"
    unfolding e using private_updateCurveGeometry_valid [OF vw, of False]
    by (simp add: Let_def)
  have v2: "validCounts (curves ?s2)"
    using v validCounts_rebuilt [of "vectors ?w" "curves s"] by simp
  have p: "polyline ?s2 = ?pts"
    unfolding polyline_valid [OF v2] by (simp add: comp_def samplesOf_rebuilt)
  show ?thesis unfolding r snd_conv fst_conv p by simp
qed

theorem drag_rebuilds_without_touching_helpers_witness:
  "validCounts (curves shownDefault) \<and> curves shownDefault \<noteq> []
   \<and> (1::nat) \<le> length (curves shownDefault)
   \<and> fst (helperCallback 1 1 shownDefault) = None
   \<and> helpers (snd (helperCallback 1 1 shownDefault)) = [0, 1, 2]
   \<and> meshes (snd (helperCallback 1 1 shownDefault)) = meshes shownDefault
   \<and> nextMesh (snd (helperCallback 1 1 shownDefault)) = nextMesh shownDefault"
  using drag_rebuilds_without_touching_helpers [OF shownDefault_fields(1,2), of 1 1]
  by (simp add: shownDefault_fields)

text \<open>
  Claim C8 as stated fails on a path of three segments: \<open>show()\<close> puts the helper of
  slot 2 at the polyline point of index 8, the sum of the sample counts of segments 0
  and 1; after the helper of slot 1 is dragged to \<open>(5,5,5)\<close> the polyline point of index 8
  has moved and the helper of slot 2 has not.
\<close>

theorem drag_no_reposition_counterexample:
  "position (meshes (snd (show threeSegments)) (helpers (snd (show threeSegments)) ! 2))
     = polyline (snd (show threeSegments)) ! 8
   \<and> position (meshes draggedThree (helpers draggedThree ! 2)) \<noteq> polyline draggedThree ! 8"
proof -
  let ?S = "snd (show threeSegments)"
  have vS: "validCounts (curves ?S)"
    using map_samplesOf_refs [OF show_three(5)] threeSegments_valid(1) by simp
  have vD: "validCounts (curves draggedThree)"
    using map_samplesOf_refs [OF draggedThree_fields(3)] threeSegments_valid(1) by simp
  have pS: "polyline ?S = concat (map (samplesOf (vectors threeSegments)) (curves threeSegments))"
    unfolding polyline_valid [OF vS] show_three(6)
    using map_samplesOf_refs [OF show_three(5)] by simp
  have pD: "polyline draggedThree =
      concat (map (samplesOf ((vectors threeSegments)(4 := Vector3 5 5 5, 3 := Vector3 5 5 5)))
                  (curves threeSegments))"
    unfolding polyline_valid [OF vD] draggedThree_fields(4)
    using map_samplesOf_refs [OF draggedThree_fields(3)] by simp
  have "polyline ?S ! 8 = Vector3 1 (317 / 128) (- (61 / 128))"
    unfolding pS
    by (simp add: threeSegments_def samplesOf_def upt_5 bezierPoint_def bezier_def
        defaultVectors_def)
  moreover have "polyline draggedThree ! 8 = Vector3 (17 / 16) (325 / 128) (- (53 / 128))"
    unfolding pD
    by (simp add: threeSegments_def samplesOf_def upt_5 bezierPoint_def bezier_def
        defaultVectors_def)
  ultimately show ?thesis
    by (simp add: show_three draggedThree_fields)
qed

section \<open>Reachable states\<close>

lemma pathInv_refs:
  assumes "pathInv s" and r: "map controlRefs (curves s') = map controlRefs (curves s)"
    and "wfPool s'"
  shows "pathInv s'"
proof -
  have "length (curves s') = length (curves s)"
    using length_map [of controlRefs "curves s'"] r by simp
  moreover have "validCounts (curves s') = validCounts (curves s)"
    using map_samplesOf_refs [OF r] by simp
  ultimately show ?thesis using assms(1,3) by (auto simp: pathInv_def)
qed

lemma wfPool_fields:
  "helpers s' = helpers s \<Longrightarrow> nextMesh s' = nextMesh s \<Longrightarrow> wfPool s' = wfPool s"
  by (simp add: wfPool_def)

lemma private_updateCurveGeometry_wf:
  "wfPool s \<Longrightarrow> wfPool (snd (private_updateCurveGeometry b s))"
proof -
  assume wf: "wfPool s"
  obtain r s1 where g: "getFinalCurvePoints s = (r, s1)" by (cases "getFinalCurvePoints s")
  have s1: "wfPool s1"
    using wf getFinalCurvePoints_fields(6,9) [of s] g by (simp add: wfPool_def)
  show ?thesis
  proof (cases r)
    case (Inl e)
    with g s1 show ?thesis by (simp add: private_updateCurveGeometry_def)
  next
    case (Inr pts)
    let ?s2 = "s1\<lparr>geometry := Some (pts, map (\<lambda>_. Color4 (cr (color s1)) (cg (color s1))
                                                    (cb (color s1)) 1) pts)\<rparr>"
    have "wfPool ?s2" using s1 by (simp add: wfPool_def)
    then have "wfPool (snd (showHelpers ?s2))" by (rule showHelpers_wf)
    with g Inr \<open>wfPool ?s2\<close> show ?thesis
      by (simp add: private_updateCurveGeometry_def Let_def)
  qed
qed

lemma helperCallback_cases:
  "helperCallback index h s = (Some TypeError, s)
   \<or> (\<exists>V. helperCallback index h s = private_updateCurveGeometry False (s\<lparr>vectors := V\<rparr>))"
proof -
  let ?p = "position (meshes s h)" and ?n = "length (curves s)"
  consider (last) "index = ?n" "?n \<noteq> 0" | (none) "index = ?n" "?n = 0"
    | (inner) "index \<noteq> ?n" "0 < index" "index < ?n"
    | (beyond) "index \<noteq> ?n" "0 < index" "\<not> index < ?n"
    | (first) "index \<noteq> ?n" "index = 0"
    by blast
  then show ?thesis
  proof cases
    case last
    then have "helperCallback index h s =
        private_updateCurveGeometry False (s\<lparr>vectors := (vectors s)(v3 (curves s ! (index - 1)) := ?p)\<rparr>)"
      by (simp add: helperCallback_def Let_def copyFrom_def)
    then show ?thesis by blast
  next
    case none
    then show ?thesis by (simp add: helperCallback_def Let_def)
  next
    case inner
    then have "helperCallback index h s =
        private_updateCurveGeometry False
          (s\<lparr>vectors := (vectors s)(v0 (curves s ! index) := ?p, v3 (curves s ! (index - 1)) := ?p)\<rparr>)"
      by (simp add: helperCallback_def Let_def copyFrom_def)
    then show ?thesis by blast
  next
    case beyond
    then show ?thesis by (simp add: helperCallback_def Let_def)
  next
    case first
    then have "helperCallback index h s =
        private_updateCurveGeometry False (s\<lparr>vectors := (vectors s)(v0 (curves s ! index) := ?p)\<rparr>)"
      by (simp add: helperCallback_def Let_def copyFrom_def)
    then show ?thesis by blast
  qed
qed

lemma helperCallback_inv:
  "map controlRefs (curves (snd (helperCallback index h s))) = map controlRefs (curves s)"
  "wfPool s \<Longrightarrow> wfPool (snd (helperCallback index h s))"
proof -
  from helperCallback_cases [of index h s]
  show "map controlRefs (curves (snd (helperCallback index h s))) = map controlRefs (curves s)"
    by (auto simp: private_updateCurveGeometry_fields)
  assume wf: "wfPool s"
  then have "wfPool (snd (private_updateCurveGeometry False (s\<lparr>vectors := V\<rparr>)))" for V
    by (intro private_updateCurveGeometry_wf) (simp add: wfPool_def)
  with wf helperCallback_cases [of index h s]
  show "wfPool (snd (helperCallback index h s))" by auto
qed

lemma dragHelper_inv:
  "map controlRefs (curves (snd (dragHelper h p s))) = map controlRefs (curves s)"
  "wfPool s \<Longrightarrow> wfPool (snd (dragHelper h p s))"
proof -
  have c: "curves (setPosition h p s) = curves s" by (simp add: setPosition_def)
  show "map controlRefs (curves (snd (dragHelper h p s))) = map controlRefs (curves s)"
    by (cases "onDrag (meshes s h)") (simp_all add: dragHelper_def helperCallback_inv(1) c)
  assume "wfPool s"
  then have "wfPool (setPosition h p s)" by (rule setPosition_wf)
  then show "wfPool (snd (dragHelper h p s))"
    by (cases "onDrag (meshes s h)") (simp_all add: dragHelper_def helperCallback_inv(2))
qed

lemma inspectorChange_inv:
  "map controlRefs (curves (snd (inspectorChange k prop p s))) = map controlRefs (curves s)"
  "wfPool s \<Longrightarrow> wfPool (snd (inspectorChange k prop p s))"
proof -
  let ?t = "s\<lparr>vectors := (vectors s)(propertyOf prop (curves s ! k) := p)\<rparr>"
  show "map controlRefs (curves (snd (inspectorChange k prop p s))) = map controlRefs (curves s)"
    by (simp add: inspectorChange_def updateCurveGeometry_def private_updateCurveGeometry_fields)
  assume wf: "wfPool s"
  then have "wfPool ?t" by (simp add: wfPool_def)
  then have "wfPool (snd (private_updateCurveGeometry True ?t))"
    by (rule private_updateCurveGeometry_wf)
  with wf show "wfPool (snd (inspectorChange k prop p s))"
    by (simp add: inspectorChange_def updateCurveGeometry_def)
qed

lemma handleCurveNodeContextMenu_single:
  "length (curves s) \<le> 1 \<Longrightarrow> handleCurveNodeContextMenu nodeId s = (None, s)"
  by (simp add: handleCurveNodeContextMenu_def)

lemma handleCurveNodeContextMenu_refs:
  "1 < length (curves s) \<Longrightarrow>
   map controlRefs (curves (snd (handleCurveNodeContextMenu nodeId s))) =
     map controlRefs (take nodeId (curves s) @ drop (Suc nodeId) (curves s))"
  by (simp add: handleCurveNodeContextMenu_def updateCurveGeometry_def
      private_updateCurveGeometry_fields)

lemma handleCurveNodeContextMenu_wf:
  "wfPool s \<Longrightarrow> wfPool (snd (handleCurveNodeContextMenu nodeId s))"
proof -
  assume wf: "wfPool s"
  let ?t = "s\<lparr>curves := take nodeId (curves s) @ drop (Suc nodeId) (curves s)\<rparr>"
  have "wfPool ?t" using wf by (simp add: wfPool_def)
  then have "wfPool (snd (private_updateCurveGeometry True ?t))"
    by (rule private_updateCurveGeometry_wf)
  with wf show ?thesis
    by (simp add: handleCurveNodeContextMenu_def updateCurveGeometry_def)
qed

lemma handleCurveNodeContextMenu_inv:
  assumes inv: "pathInv s"
  shows "pathInv (snd (handleCurveNodeContextMenu nodeId s))"
proof (cases "length (curves s) \<le> 1")
  case True
  with inv show ?thesis by (simp add: handleCurveNodeContextMenu_single)
next
  case False
  let ?cs = "take nodeId (curves s) @ drop (Suc nodeId) (curves s)"
  let ?s' = "snd (handleCurveNodeContextMenu nodeId s)"
  from False have n: "1 < length (curves s)" by simp
  have r: "map controlRefs (curves ?s') = map controlRefs ?cs"
    by (rule handleCurveNodeContextMenu_refs [OF n])
  have "length ?cs = min (length (curves s)) nodeId + (length (curves s) - Suc nodeId)"
    by simp
  then have pos: "0 < length ?cs" using n by arith
  have l: "length (curves ?s') = length ?cs"
    using length_map [of controlRefs "curves ?s'"] unfolding r by simp
  have ne: "curves ?s' \<noteq> []"
  proof
    assume "curves ?s' = []"
    then have "length (curves ?s') = 0" by (simp only: list.size)
    with l pos show False by arith
  qed
  have "validCounts ?cs"
    using inv by (auto simp: pathInv_def validCounts_def dest: in_set_takeD in_set_dropD)
  then have v: "validCounts (curves ?s')" using map_samplesOf_refs [OF r] by simp
  have "wfPool ?s'" using inv by (simp add: pathInv_def handleCurveNodeContextMenu_wf)
  with ne v show ?thesis by (simp add: pathInv_def)
qed

lemma constructor_inv: "pathInv (snd constructor)"
  by (simp add: constructor_eq pathInv_def builtDefault_def initialFields_def
      validCounts_rebuilt defaultCurves_valid wfPool_def) (simp add: defaultCurves_def)

lemma reachable_inv: "reachable s \<Longrightarrow> pathInv s"
proof (induction rule: reachable.induct)
  case r_new
  show ?case by (rule constructor_inv)
next
  case (r_show s)
  then have "wfPool (s\<lparr>isVisible := True\<rparr>)" by (simp add: pathInv_def wfPool_def)
  then have "wfPool (snd (show s))" unfolding show_def by (rule showHelpers_wf)
  moreover have "map controlRefs (curves (snd (show s))) = map controlRefs (curves s)"
    by (simp add: show_def showHelpers_fields)
  ultimately show ?case using r_show.IH pathInv_refs by blast
next
  case (r_hide s)
  then show ?case by (simp add: pathInv_def hide_eq wfPool_def)
next
  case (r_buildCurves s)
  have "map controlRefs (curves (snd (buildCurves s))) = map controlRefs (curves s)"
    by (simp add: buildCurves_snd buildCurvesLoop_refs)
  moreover have "wfPool (snd (buildCurves s))"
    using r_buildCurves.IH by (simp add: buildCurves_snd pathInv_def wfPool_def)
  ultimately show ?case using r_buildCurves.IH pathInv_refs by blast
next
  case (r_updateCurve s k)
  let ?s' = "s\<lparr>curves := (curves s)[k := snd (updateCurve (vectors s) (curves s ! k))]\<rparr>"
  have "map controlRefs (curves ?s') = (map controlRefs (curves s))[k := controlRefs (curves s ! k)]"
    by (simp add: map_update updateCurve_refs)
  also have "\<dots> = map controlRefs (curves s)"
    using r_updateCurve.hyps(2) by (simp add: list_update_same_conv)
  finally have "map controlRefs (curves ?s') = map controlRefs (curves s)" .
  moreover have "wfPool ?s'" using r_updateCurve.IH by (simp add: pathInv_def wfPool_def)
  ultimately show ?case using r_updateCurve.IH pathInv_refs by blast
next
  case (r_getFinalCurvePoints s)
  have "wfPool (snd (getFinalCurvePoints s))"
    using r_getFinalCurvePoints.IH getFinalCurvePoints_fields(6,9) [of s]
    by (simp add: pathInv_def wfPool_def)
  then show ?case
    using r_getFinalCurvePoints.IH getFinalCurvePoints_fields(1) pathInv_refs by blast
next
  case (r_updateCurveGeometry s)
  have "wfPool (snd (updateCurveGeometry s))"
    using r_updateCurveGeometry.IH
    by (simp add: updateCurveGeometry_def pathInv_def private_updateCurveGeometry_wf)
  moreover have "map controlRefs (curves (snd (updateCurveGeometry s))) = map controlRefs (curves s)"
    by (simp add: updateCurveGeometry_def private_updateCurveGeometry_fields)
  ultimately show ?case using r_updateCurveGeometry.IH pathInv_refs by blast
next
  case (r_drag s h p)
  then have "wfPool (snd (dragHelper h p s))" by (simp add: pathInv_def dragHelper_inv(2))
  then show ?case using r_drag.IH dragHelper_inv(1) pathInv_refs by blast
next
  case (r_inspector s k pr p)
  then have "wfPool (snd (inspectorChange k pr p s))"
    by (simp add: pathInv_def inspectorChange_inv(2))
  then show ?case using r_inspector.IH inspectorChange_inv(1) pathInv_refs by blast
next
  case (r_remove s nodeId)
  then show ?case by (simp add: handleCurveNodeContextMenu_inv)
qed

text \<open>
  Claim C5.  With exactly one segment, the inspector's removal does nothing: it returns
  normally and the whole state, the segment sequence and the vector store included, is
  what it was.  Consequently no state reachable from the constructor through any sequence
  of operations has an empty segment sequence.
\<close>

theorem removal_guard:
  "(length (curves s) = 1 \<longrightarrow> handleCurveNodeContextMenu nodeId s = (None, s))
   \<and> (reachable s \<longrightarrow> curves s \<noteq> [])"
proof -
  have "handleCurveNodeContextMenu nodeId s = (None, s)" if "length (curves s) = 1"
    using that by (simp add: handleCurveNodeContextMenu_single)
  moreover have "curves s \<noteq> []" if "reachable s"
    using reachable_inv [OF that] by (simp add: pathInv_def)
  ultimately show ?thesis by blast
qed

lemma reachable_shownDefault: "reachable shownDefault"
  unfolding shownDefault_def by (intro r_show r_new)

theorem removal_guard_witness:
  "length (curves (snd (handleCurveNodeContextMenu 0 shownDefault))) = 1
   \<and> reachable (snd (handleCurveNodeContextMenu 0 shownDefault))
   \<and> handleCurveNodeContextMenu 0 (snd (handleCurveNodeContextMenu 0 shownDefault))
       = (None, snd (handleCurveNodeContextMenu 0 shownDefault))
   \<and> curves (snd (handleCurveNodeContextMenu 0 shownDefault)) \<noteq> []"
proof -
  let ?R = "snd (handleCurveNodeContextMenu 0 shownDefault)"
  have "map controlRefs (curves ?R) =
        map controlRefs (take 0 (curves shownDefault) @ drop (Suc 0) (curves shownDefault))"
    by (intro handleCurveNodeContextMenu_refs) (simp add: shownDefault_fields)
  then have "length (map controlRefs (curves ?R)) = 1"
    by (simp add: shownDefault_fields)
  then have l: "length (curves ?R) = 1" by simp
  have r: "reachable ?R" by (intro r_remove reachable_shownDefault)
  from removal_guard [of ?R 0] l r show ?thesis by simp
qed

section \<open>The size of the helper pool\<close>

lemma poolInv_cong:
  "poolInv s \<Longrightarrow> helpers s' = helpers s \<Longrightarrow> isVisible s' = isVisible s \<Longrightarrow>
   map controlRefs (curves s') = map controlRefs (curves s) \<Longrightarrow> poolInv s'"
  using length_map [of controlRefs "curves s'"] length_map [of controlRefs "curves s"]
  by (simp add: poolInv_def)

lemma showHelpers_poolInv:
  assumes "validCounts (curves s)" and "curves s \<noteq> []" and "isVisible s"
  shows "poolInv (snd (showHelpers s))"
  using showHelpers_pool(2,3) [OF assms(1,2)] showHelpers_fields(4) [of s] assms(3)
  by (simp add: poolInv_def)

lemma private_updateCurveGeometry_poolInv:
  assumes v: "validCounts (curves s)" and ne: "curves s \<noteq> []"
    and p: "(b \<and> isVisible s) \<or> poolInv s"
  shows "poolInv (snd (private_updateCurveGeometry b s))"
proof -
  let ?pts = "concat (map (samplesOf (vectors s)) (curves s))"
  let ?s2 = "s\<lparr>curves := map (rebuilt (vectors s)) (curves s),
               geometry := Some (?pts, map (\<lambda>_. Color4 (cr (color s)) (cg (color s))
                                                      (cb (color s)) 1) ?pts)\<rparr>"
  have e: "private_updateCurveGeometry b s =
      (if b \<and> isVisible s then showHelpers ?s2 else (None, ?s2))"
    using private_updateCurveGeometry_valid [OF v, of b] by (simp add: Let_def)
  show ?thesis
  proof (cases "b \<and> isVisible s")
    case True
    have "validCounts (curves ?s2)" using v validCounts_rebuilt [of "vectors s" "curves s"] by simp
    moreover have "curves ?s2 \<noteq> []" using ne by simp
    moreover have "isVisible ?s2" using True by simp
    ultimately have sp: "poolInv (snd (showHelpers ?s2))" by (rule showHelpers_poolInv)
    have "private_updateCurveGeometry b s = showHelpers ?s2" using e True by simp
    with sp show ?thesis by simp
  next
    case False
    with p have "poolInv s" by blast
    then have sp: "poolInv ?s2" by (simp add: poolInv_def)
    have "private_updateCurveGeometry b s = (None, ?s2)" using e False by simp
    with sp show ?thesis by simp
  qed
qed

lemma reachable_poolInv: "reachable s \<Longrightarrow> poolInv s"
proof (induction rule: reachable.induct)
  case r_new
  show ?case by (simp add: constructor_eq poolInv_def builtDefault_def initialFields_def)
next
  case (r_show s)
  from reachable_inv [OF r_show.hyps]
  have "validCounts (curves (s\<lparr>isVisible := True\<rparr>))" "curves (s\<lparr>isVisible := True\<rparr>) \<noteq> []"
    by (simp_all add: pathInv_def)
  then show ?case unfolding show_def by (rule showHelpers_poolInv) simp
next
  case (r_hide s)
  show ?case by (simp add: poolInv_def hide_eq)
next
  case (r_buildCurves s)
  from r_buildCurves.IH show ?case
    by (rule poolInv_cong) (simp_all add: buildCurves_snd buildCurvesLoop_refs)
next
  case (r_updateCurve s k)
  have "map controlRefs ((curves s)[k := snd (updateCurve (vectors s) (curves s ! k))]) =
        (map controlRefs (curves s))[k := controlRefs (curves s ! k)]"
    by (simp add: map_update updateCurve_refs)
  also have "\<dots> = map controlRefs (curves s)"
    using r_updateCurve.hyps(2) by (simp add: list_update_same_conv)
  finally have refs:
    "map controlRefs ((curves s)[k := snd (updateCurve (vectors s) (curves s ! k))]) =
     map controlRefs (curves s)" .
  from r_updateCurve.IH show ?case by (rule poolInv_cong) (simp_all add: refs)
next
  case (r_getFinalCurvePoints s)
  from r_getFinalCurvePoints.IH show ?case
    by (rule poolInv_cong) (simp_all add: getFinalCurvePoints_fields)
next
  case (r_updateCurveGeometry s)
  from reachable_inv [OF r_updateCurveGeometry.hyps] r_updateCurveGeometry.IH
  show ?case
    unfolding updateCurveGeometry_def
    by (intro private_updateCurveGeometry_poolInv disjI2) (simp_all add: pathInv_def)
next
  case (r_drag s h p)
  let ?t = "setPosition h p s"
  have inv: "validCounts (curves ?t)" "curves ?t \<noteq> []"
    using reachable_inv [OF r_drag.hyps] by (simp_all add: pathInv_def setPosition_def)
  have pt: "poolInv ?t" using r_drag.IH by (simp add: poolInv_def setPosition_def)
  have cb: "poolInv (snd (helperCallback index h ?t))" for index
  proof -
    from helperCallback_cases [of index h ?t]
    consider "helperCallback index h ?t = (Some TypeError, ?t)"
      | V where "helperCallback index h ?t = private_updateCurveGeometry False (?t\<lparr>vectors := V\<rparr>)"
      by blast
    then show ?thesis
    proof cases
      case 1
      with pt show ?thesis by simp
    next
      case 2
      have "poolInv (?t\<lparr>vectors := V\<rparr>)" using pt by (simp add: poolInv_def)
      then have "poolInv (snd (private_updateCurveGeometry False (?t\<lparr>vectors := V\<rparr>)))"
        using inv by (intro private_updateCurveGeometry_poolInv disjI2) simp_all
      with 2 show ?thesis by simp
    qed
  qed
  show ?case
    by (cases "onDrag (meshes s h)") (simp_all add: dragHelper_def pt cb)
next
  case (r_inspector s k pr p)
  let ?t = "s\<lparr>vectors := (vectors s)(propertyOf pr (curves s ! k) := p)\<rparr>"
  have "poolInv ?t" using r_inspector.IH by (simp add: poolInv_def)
  then have "poolInv (snd (private_updateCurveGeometry True ?t))"
    using reachable_inv [OF r_inspector.hyps]
    by (intro private_updateCurveGeometry_poolInv disjI2) (simp_all add: pathInv_def)
  with r_inspector.IH show ?case
    by (simp add: inspectorChange_def updateCurveGeometry_def)
next
  case (r_remove s nodeId)
  show ?case
  proof (cases "length (curves s) \<le> 1")
    case True
    with r_remove.IH show ?thesis by (simp add: handleCurveNodeContextMenu_single)
  next
    case False
    let ?cs = "take nodeId (curves s) @ drop (Suc nodeId) (curves s)"
    let ?t = "s\<lparr>curves := ?cs\<rparr>"
    have "length ?cs = min (length (curves s)) nodeId + (length (curves s) - Suc nodeId)"
      by simp
    with False have "0 < length ?cs" by arith
    then have ne: "curves ?t \<noteq> []" by auto
    have v: "validCounts (curves ?t)"
      using reachable_inv [OF r_remove.hyps]
      by (auto simp: pathInv_def validCounts_def dest: in_set_takeD in_set_dropD)
    have "(True \<and> isVisible ?t) \<or> poolInv ?t"
      using r_remove.IH by (cases "isVisible s") (simp_all add: poolInv_def)
    with v ne have "poolInv (snd (private_updateCurveGeometry True ?t))"
      by (rule private_updateCurveGeometry_poolInv)
    with False show ?thesis
      by (simp add: handleCurveNodeContextMenu_def updateCurveGeometry_def)
  qed
qed

text \<open>
  Claim C6, as the code has it.  In every reachable state the pool holds exactly segment
  count + 1 helpers while the mesh is visible and none while it is hidden; a drag changes
  neither.  For a path with at least one segment and valid sample counts: \<open>hide()\<close>
  leaves an empty pool; \<open>show()\<close> returns normally with exactly segment count + 1 helpers
  in the pool; and while the mesh is visible, removing a segment through the inspector
  (more than one segment, index in range) returns normally with one segment less and
  exactly (new segment count) + 1 helpers in the pool, \<open>dispose()\<close> having been called on
  every helper that was in the pool at an index beyond the new segment count.
\<close>

theorem pool_size_when_visible:
  "(reachable s \<longrightarrow>
      (if isVisible s then length (helpers s) = length (curves s) + 1 else helpers s = []))
   \<and> (validCounts (curves s) \<and> curves s \<noteq> [] \<longrightarrow>
         helpers (hide s) = []
       \<and> fst (show s) = None
       \<and> length (helpers (snd (show s))) = length (curves (snd (show s))) + 1
       \<and> (isVisible s \<and> 1 < length (curves s) \<and> i < length (curves s) \<longrightarrow>
            fst (handleCurveNodeContextMenu i s) = None
          \<and> length (curves (snd (handleCurveNodeContextMenu i s))) = length (curves s) - 1
          \<and> length (helpers (snd (handleCurveNodeContextMenu i s)))
               = length (curves (snd (handleCurveNodeContextMenu i s))) + 1
          \<and> (\<forall>j. length (curves s) - 1 < j \<and> j < length (helpers s) \<longrightarrow>
                 disposed (meshes (snd (handleCurveNodeContextMenu i s)) (helpers s ! j)))))"
proof -
  have "if isVisible s then length (helpers s) = length (curves s) + 1 else helpers s = []"
    if "reachable s"
    using reachable_poolInv [OF that] by (simp add: poolInv_def)
  then show ?thesis using pool_size_ops [of s i] by blast
qed

theorem pool_size_when_visible_witness:
  "reachable shownDefault
   \<and> validCounts (curves shownDefault) \<and> curves shownDefault \<noteq> []
   \<and> isVisible shownDefault \<and> 1 < length (curves shownDefault)
   \<and> 0 < length (curves shownDefault)
   \<and> length (helpers shownDefault) = 3
   \<and> helpers (hide shownDefault) = []
   \<and> fst (show shownDefault) = None
   \<and> length (helpers (snd (show shownDefault))) = length (curves (snd (show shownDefault))) + 1
   \<and> length (curves (snd (handleCurveNodeContextMenu 0 shownDefault))) = 1
   \<and> length (helpers (snd (handleCurveNodeContextMenu 0 shownDefault))) = 2
   \<and> disposed (meshes (snd (handleCurveNodeContextMenu 0 shownDefault)) 2)"
proof -
  note t = pool_size_when_visible [of shownDefault 0]
  have j: "length (curves shownDefault) - 1 < 2 \<and> 2 < length (helpers shownDefault)"
    by (simp add: shownDefault_fields)
  from t j have "disposed (meshes (snd (handleCurveNodeContextMenu 0 shownDefault))
                    (helpers shownDefault ! 2))"
    by (simp add: shownDefault_fields(1,2,4,5))
  then have "disposed (meshes (snd (handleCurveNodeContextMenu 0 shownDefault)) 2)"
    by (simp add: shownDefault_fields(6))
  with t reachable_shownDefault show ?thesis by (simp add: shownDefault_fields)
qed

text \<open>
  Claim C6 as stated fails in the hidden state: right after construction no drag is in
  progress, the path has two segments, and the pool is empty.
\<close>

theorem pool_size_counterexample:
  "length (helpers (snd constructor)) \<noteq> length (curves (snd constructor)) + 1"
  by (simp add: constructor_eq builtDefault_def initialFields_def defaultCurves_def)

section \<open>Joints\<close>

lemma refsInv_cong:
  "refsInv s \<Longrightarrow> map controlRefs (curves s') = map controlRefs (curves s) \<Longrightarrow> refsInv s'"
  by (simp add: refsInv_def)

lemma handleCurveNodeContextMenu_refsInv:
  assumes inv: "refsInv s"
  shows "refsInv (snd (handleCurveNodeContextMenu nodeId s))"
proof (cases "length (curves s) \<le> 1")
  case True
  with inv show ?thesis by (simp add: handleCurveNodeContextMenu_single)
next
  case False
  then have n: "1 < length (curves s)" by simp
  then have "1 < length (map controlRefs (curves s))" by simp
  with inv have d: "map controlRefs (curves s) = defaultRefs"
    by (auto simp: refsInv_def)
  let ?s' = "snd (handleCurveNodeContextMenu nodeId s)"
  have "map controlRefs (curves ?s') =
        take nodeId (map controlRefs (curves s)) @ drop (Suc nodeId) (map controlRefs (curves s))"
    unfolding handleCurveNodeContextMenu_refs [OF n] by (simp add: take_map drop_map)
  then have r: "map controlRefs (curves ?s') = take nodeId defaultRefs @ drop (Suc nodeId) defaultRefs"
    unfolding d .
  consider "nodeId = 0" | "nodeId = 1" | "2 \<le> nodeId" by linarith
  then show ?thesis
  proof cases
    case 1
    with r show ?thesis by (simp add: refsInv_def defaultRefs_def)
  next
    case 2
    with r show ?thesis by (simp add: refsInv_def defaultRefs_def)
  next
    case 3
    with r show ?thesis by (simp add: refsInv_def defaultRefs_def)
  qed
qed

lemma constructor_refsInv: "refsInv (snd constructor)"
  by (simp add: constructor_eq refsInv_def builtDefault_def initialFields_def comp_def
      defaultRefs_def defaultCurves_def controlRefs_def rebuilt_fields)

lemma reachable_refsInv: "reachable s \<Longrightarrow> refsInv s"
proof (induction rule: reachable.induct)
  case r_new
  show ?case by (rule constructor_refsInv)
next
  case (r_show s)
  from r_show.IH show ?case  by (rule refsInv_cong) (simp add: show_def showHelpers_fields)
next
  case (r_hide s)
  from r_hide.IH show ?case  by (rule refsInv_cong) (simp add: hide_eq)
next
  case (r_buildCurves s)
  from r_buildCurves.IH show ?case  by (rule refsInv_cong) (simp add: buildCurves_snd buildCurvesLoop_refs)
next
  case (r_updateCurve s k)
  let ?s' = "s\<lparr>curves := (curves s)[k := snd (updateCurve (vectors s) (curves s ! k))]\<rparr>"
  have "map controlRefs (curves ?s') = (map controlRefs (curves s))[k := controlRefs (curves s ! k)]"
    by (simp add: map_update updateCurve_refs)
  also have "\<dots> = map controlRefs (curves s)"
    using r_updateCurve.hyps(2) by (simp add: list_update_same_conv)
  finally show ?case using r_updateCurve.IH refsInv_cong by blast
next
  case (r_getFinalCurvePoints s)
  from r_getFinalCurvePoints.IH show ?case  by (rule refsInv_cong) (simp add: getFinalCurvePoints_fields)
next
  case (r_updateCurveGeometry s)
  from r_updateCurveGeometry.IH show ?case
     by (rule refsInv_cong) (simp add: updateCurveGeometry_def private_updateCurveGeometry_fields)
next
  case (r_drag s h p)
  from r_drag.IH show ?case  by (rule refsInv_cong) (simp add: dragHelper_inv)
next
  case (r_inspector s k pr p)
  from r_inspector.IH show ?case  by (rule refsInv_cong) (simp add: inspectorChange_inv)
next
  case (r_remove s nodeId)
  from r_remove.IH show ?case by (rule handleCurveNodeContextMenu_refsInv)
qed

lemma refsInv_joint:
  assumes "refsInv s" and i: "Suc i < length (curves s)"
  shows "v3 (curves s ! i) = 3 \<and> v0 (curves s ! Suc i) = 4"
proof -
  from i have "1 < length (map controlRefs (curves s))" by simp
  with assms(1) have d: "map controlRefs (curves s) = defaultRefs"
    by (auto simp: refsInv_def)
  then have "length (curves s) = 2"
    using length_map [of controlRefs "curves s"] by (simp add: defaultRefs_def)
  with i have i0: "i = 0" by simp
  have "controlRefs (curves s ! 0) = defaultRefs ! 0"
    "controlRefs (curves s ! Suc 0) = defaultRefs ! Suc 0"
    using nth_map [of 0 "curves s" controlRefs] nth_map [of "Suc 0" "curves s" controlRefs]
      \<open>length (curves s) = 2\<close> d by simp_all
  then show ?thesis unfolding i0 by (simp add: controlRefs_def defaultRefs_def)
qed


lemma builtDefault_fields:
  "curves builtDefault = map (rebuilt defaultVectors) defaultCurves"
  "vectors builtDefault = defaultVectors"
  by (simp_all add: builtDefault_def initialFields_def)

lemma refs_default:
  "map controlRefs (curves s) = defaultRefs \<Longrightarrow>
   length (curves s) = 2 \<and> v3 (curves s ! 0) = 3 \<and> v0 (curves s ! Suc 0) = 4"
proof -
  assume d: "map controlRefs (curves s) = defaultRefs"
  then have l: "length (curves s) = 2"
    using length_map [of controlRefs "curves s"] by (simp add: defaultRefs_def)
  have "controlRefs (curves s ! 0) = defaultRefs ! 0"
    "controlRefs (curves s ! Suc 0) = defaultRefs ! Suc 0"
    using nth_map [of 0 "curves s" controlRefs] nth_map [of "Suc 0" "curves s" controlRefs] l d
    by simp_all
  with l show ?thesis by (simp add: controlRefs_def defaultRefs_def)
qed

lemma default_refs:
  "map controlRefs (curves builtDefault) = defaultRefs"
  "map controlRefs (curves shownDefault) = defaultRefs"
  by (simp_all add: builtDefault_fields shownDefault_curves comp_def defaultRefs_def
      defaultCurves_def controlRefs_def rebuilt_fields)

lemma inspector_default:
  "vectors (snd (inspectorChange 0 PropV3 p builtDefault)) = defaultVectors(3 := p)"
  "map controlRefs (curves (snd (inspectorChange 0 PropV3 p builtDefault))) = defaultRefs"
proof -
  from refs_default [OF default_refs(1)]
  have l: "0 < length (curves builtDefault)" and a: "v3 (curves builtDefault ! 0) = 3"
    by simp_all
  show "vectors (snd (inspectorChange 0 PropV3 p builtDefault)) = defaultVectors(3 := p)"
    using l a
    by (simp add: inspectorChange_def updateCurveGeometry_def
        private_updateCurveGeometry_fields builtDefault_fields(2))
  show "map controlRefs (curves (snd (inspectorChange 0 PropV3 p builtDefault))) = defaultRefs"
    by (simp add: inspectorChange_inv(1) default_refs)
qed

lemma drag_default:
  "vectors (snd (dragHelper (Suc 0) p shownDefault)) = defaultVectors(4 := p, 3 := p)"
  "map controlRefs (curves (snd (dragHelper (Suc 0) p shownDefault))) = defaultRefs"
proof -
  let ?T = "setPosition (Suc 0) p shownDefault"
  have c: "curves ?T = curves shownDefault" "vectors ?T = defaultVectors"
    "position (meshes ?T (Suc 0)) = p"
    by (simp_all add: setPosition_def shownDefault_curves)
  from refs_default [OF default_refs(2)]
  have l: "length (curves ?T) = 2" and a: "v3 (curves ?T ! 0) = 3" "v0 (curves ?T ! Suc 0) = 4"
    by (simp_all add: c(1))
  have ne: "curves ?T \<noteq> []" and i: "Suc 0 \<le> length (curves ?T)" using l by auto
  have d: "dragHelper (Suc 0) p shownDefault = helperCallback (Suc 0) (Suc 0) ?T"
    by (simp add: dragHelper_def shownDefault_eq)
  show "vectors (snd (dragHelper (Suc 0) p shownDefault)) = defaultVectors(4 := p, 3 := p)"
    unfolding d helperCallback_eq [OF ne i]
    by (simp add: private_updateCurveGeometry_fields l a c(2,3))
  show "map controlRefs (curves (snd (dragHelper (Suc 0) p shownDefault))) = defaultRefs"
    by (simp add: dragHelper_inv(1) default_refs)
qed

text \<open>
  Claim C1, as the code has it.  In every reachable state and for every adjacent pair of
  segments, the vector object stored as segment \<open>i\<close>'s \<open>v3\<close> is a different object from
  the one stored as segment \<open>i + 1\<close>'s \<open>v0\<close>.  For the default path at construction the
  two objects of the joint hold equal coordinates.  A drag of the joint's helper to \<open>p\<close>
  writes \<open>p\<close> into both objects, so both segments see the new joint; an edit of segment 0's
  end point in the inspector writes that object alone, and segment 1's start point keeps
  its coordinates \<open>(1,1,1)\<close>.
\<close>

theorem joints_are_distinct_objects:
  "(reachable s \<longrightarrow>
      (\<forall>i. Suc i < length (curves s) \<longrightarrow> v3 (curves s ! i) \<noteq> v0 (curves s ! Suc i)))
   \<and> vectors (snd constructor) (v3 (curves (snd constructor) ! 0))
       = vectors (snd constructor) (v0 (curves (snd constructor) ! 1))
   \<and> vectors (snd (dragHelper 1 p shownDefault))
         (v3 (curves (snd (dragHelper 1 p shownDefault)) ! 0)) = p
   \<and> vectors (snd (dragHelper 1 p shownDefault))
         (v0 (curves (snd (dragHelper 1 p shownDefault)) ! 1)) = p
   \<and> vectors (snd (inspectorChange 0 PropV3 p (snd constructor)))
         (v3 (curves (snd (inspectorChange 0 PropV3 p (snd constructor))) ! 0)) = p
   \<and> vectors (snd (inspectorChange 0 PropV3 p (snd constructor)))
         (v0 (curves (snd (inspectorChange 0 PropV3 p (snd constructor))) ! 1)) = Vector3 1 1 1"
proof -
  have a: "\<forall>i. Suc i < length (curves s) \<longrightarrow> v3 (curves s ! i) \<noteq> v0 (curves s ! Suc i)"
    if "reachable s"
    using refsInv_joint [OF reachable_refsInv [OF that]] by auto
  have b: "vectors (snd constructor) (v3 (curves (snd constructor) ! 0))
       = vectors (snd constructor) (v0 (curves (snd constructor) ! 1))"
    using refs_default [OF default_refs(1)]
    by (simp add: constructor_eq builtDefault_fields(2) defaultVectors_def)
  have c: "vectors (snd (dragHelper 1 p shownDefault))
         (v3 (curves (snd (dragHelper 1 p shownDefault)) ! 0)) = p
     \<and> vectors (snd (dragHelper 1 p shownDefault))
         (v0 (curves (snd (dragHelper 1 p shownDefault)) ! 1)) = p"
    using refs_default [OF drag_default(2), of p] by (simp add: drag_default(1))
  have d: "vectors (snd (inspectorChange 0 PropV3 p (snd constructor)))
         (v3 (curves (snd (inspectorChange 0 PropV3 p (snd constructor))) ! 0)) = p
     \<and> vectors (snd (inspectorChange 0 PropV3 p (snd constructor)))
         (v0 (curves (snd (inspectorChange 0 PropV3 p (snd constructor))) ! 1)) = Vector3 1 1 1"
    using refs_default [OF inspector_default(2), of p]
    by (simp add: constructor_eq inspector_default(1) defaultVectors_def)
  from a b c d show ?thesis by blast
qed

theorem joints_are_distinct_objects_witness:
  "reachable shownDefault \<and> Suc 0 < length (curves shownDefault)
   \<and> v3 (curves shownDefault ! 0) \<noteq> v0 (curves shownDefault ! Suc 0)"
  using joints_are_distinct_objects [of shownDefault] reachable_shownDefault
  by (simp add: shownDefault_fields)

text \<open>
  Claim C1 as stated fails on the default path at construction: segment 0's \<open>v3\<close> and
  segment 1's \<open>v0\<close> are two objects, and after the end point of segment 0 is edited to
  \<open>(5,5,5)\<close> through segment 0, segment 1's start point does not hold \<open>(5,5,5)\<close>.
\<close>

theorem joint_identity_counterexample:
  "v3 (curves (snd constructor) ! 0) \<noteq> v0 (curves (snd constructor) ! 1)
   \<and> vectors (snd (inspectorChange 0 PropV3 (Vector3 5 5 5) (snd constructor)))
         (v3 (curves (snd (inspectorChange 0 PropV3 (Vector3 5 5 5) (snd constructor))) ! 0))
       \<noteq> vectors (snd (inspectorChange 0 PropV3 (Vector3 5 5 5) (snd constructor)))
         (v0 (curves (snd (inspectorChange 0 PropV3 (Vector3 5 5 5) (snd constructor))) ! 1))"
  using refs_default [OF default_refs(1)]
    refs_default [OF inspector_default(2), of "Vector3 5 5 5"]
  by (simp add: constructor_eq inspector_default(1) defaultVectors_def)

end
